theory Spec2Isabelle
  imports Main "HOL-Library.Dlist"
begin

section \<open>The Minesweeper rules engine of \<^verbatim>\<open>src/src/Minesweeper.cpp\<close>\<close>

text \<open>
  The embedding follows the C++ file function by function.  A cell is addressed by its
  position in the vector \<^verbatim>\<open>cells\<close>: the constructor stores that position in the
  constant field \<^verbatim>\<open>index\<close>, so a \<^verbatim>\<open>CMinesweeperCell*\<close> is modelled by the
  index and the callbacks \<^verbatim>\<open>OnOpen( cell )\<close> and \<^verbatim>\<open>OnModified( cell )\<close> take it.

  Every \<^verbatim>\<open>internal_check\<close> throws \<^verbatim>\<open>logic_error\<close>; the exception carries the
  source line, and so does the model.  A method that mutates the game returns
  \<open>Return v g\<close> (the value and the game afterwards) or \<open>Throw line g\<close> (the line of the
  failed check and the game as the exception leaves it).  A \<^verbatim>\<open>const\<close> method returns
  \<open>Inr v\<close> or \<open>Inl line\<close>.

  The checks \<^verbatim>\<open>cell != nullptr\<close> and \<^verbatim>\<open>cells[index].get() == cell\<close> of the callbacks
  (lines 265, 270, 285, 290) hold for every cell that \<^verbatim>\<open>Cell( row, column )\<close> hands out
  and have no counterpart in the model.

  \<^verbatim>\<open>size_t\<close> values are natural numbers: after a successful \<^verbatim>\<open>NewGame\<close> the grid has
  between 81 and 720 cells, \<^verbatim>\<open>rows - 1\<close>, \<^verbatim>\<open>columns - 1\<close> and \<^verbatim>\<open>cells.size() - bombs\<close>
  subtract a smaller number from a larger one, every index computed by
  \<^verbatim>\<open>findNeighbors\<close> is guarded by the \<^verbatim>\<open>top\<close>/\<^verbatim>\<open>left\<close> tests and lies in the grid
  (lemma \<open>findNeighbors_in_range\<close>), and no counter can reach \<open>2 ^ 64\<close>.

  The member \<^verbatim>\<open>modifiedCellIndices\<close>, an \<^verbatim>\<open>unordered_set<size_t>\<close>, is a
  \<open>nat dlist\<close>: a duplicate-free collection with some iteration order.
\<close>

datatype TMinesweeperCellLabel = MCL_None | MCL_Bomb | MCL_Question

datatype TMinesweeperGameState = MGS_Active | MGS_Failure | MGS_Success

record cell =
  isBomb :: bool
  isOpened :: bool
  label :: TMinesweeperCellLabel
  numberOfNeighborBombs :: nat

record game =
  state :: TMinesweeperGameState
  rows :: nat
  columns :: nat
  bombs :: nat
  cells :: "cell list"
  numberOfOpenedCells :: nat
  modifiedCellIndices :: "nat dlist"

datatype 'a result = Return 'a game | Throw nat game

fun game_of :: "'a result \<Rightarrow> game" where
  "game_of (Return v g) = g"
| "game_of (Throw line g) = g"

subsection \<open>CMinesweeperCell\<close>

definition new_cell :: cell where
  "new_cell = \<lparr>isBomb = False, isOpened = False, label = MCL_None, numberOfNeighborBombs = 0\<rparr>"

definition update_cell :: "nat \<Rightarrow> (cell \<Rightarrow> cell) \<Rightarrow> game \<Rightarrow> game" where
  "update_cell index f g = g\<lparr>cells := (cells g)[index := f (cells g ! index)]\<rparr>"

definition OnModified :: "nat \<Rightarrow> game \<Rightarrow> unit result" where
  "OnModified index g =
     (if state g \<noteq> MGS_Active then Throw 286 g
      else if \<not> index < length (cells g) then Throw 289 g
      else Return () (g\<lparr>modifiedCellIndices := Dlist.insert index (modifiedCellIndices g)\<rparr>))"

definition Close :: "nat \<Rightarrow> game \<Rightarrow> unit result" where
  "Close index g =
     OnModified index (update_cell index (\<lambda>c. c\<lparr>isOpened := False, label := MCL_None\<rparr>) g)"

definition SetIsBomb :: "nat \<Rightarrow> bool \<Rightarrow> game \<Rightarrow> unit result" where
  "SetIsBomb index b g =
     (if isOpened (cells g ! index) then Throw 90 g
      else Return () (update_cell index (\<lambda>c. c\<lparr>isBomb := b, numberOfNeighborBombs := 0\<rparr>) g))"

definition SetNumberOfNeighborBombs :: "nat \<Rightarrow> nat \<Rightarrow> game \<Rightarrow> unit result" where
  "SetNumberOfNeighborBombs index n g =
     (if isOpened (cells g ! index) then Throw 97 g
      else Return () (update_cell index (\<lambda>c. c\<lparr>isBomb := False, numberOfNeighborBombs := n\<rparr>) g))"

definition InternalOpen :: "nat \<Rightarrow> game \<Rightarrow> unit result" where
  "InternalOpen index g =
     (if \<not> isOpened (cells g ! index)
      then OnModified index (update_cell index (\<lambda>c. c\<lparr>isOpened := True\<rparr>) g)
      else Return () g)"

definition IsBomb :: "cell \<Rightarrow> nat + bool" where
  "IsBomb c = (if \<not> isOpened c then Inl 112 else Inr (isBomb c))"

definition NumberOfNeighborBombs :: "cell \<Rightarrow> nat + nat" where
  "NumberOfNeighborBombs c =
     (case IsBomb c of
        Inl line \<Rightarrow> Inl line
      | Inr b \<Rightarrow> if b then Inl 118 else Inr (numberOfNeighborBombs c))"

definition SetLabel :: "nat \<Rightarrow> TMinesweeperCellLabel \<Rightarrow> game \<Rightarrow> unit result" where
  "SetLabel index newLabel g =
     (if isOpened (cells g ! index) then Throw 124 g
      else if label (cells g ! index) \<noteq> newLabel
      then OnModified index (update_cell index (\<lambda>c. c\<lparr>label := newLabel\<rparr>) g)
      else Return () g)"

subsection \<open>CMinesweeperGame\<close>

definition CMinesweeperGame :: game where
  "CMinesweeperGame =
     \<lparr>state = MGS_Failure, rows = 0, columns = 0, bombs = 0, cells = [],
      numberOfOpenedCells = 0, modifiedCellIndices = Dlist.empty\<rparr>"

definition reset :: "game \<Rightarrow> game" where
  "reset g = g\<lparr>state := MGS_Active, modifiedCellIndices := Dlist.empty, numberOfOpenedCells := 0\<rparr>"

definition Cell :: "nat \<Rightarrow> nat \<Rightarrow> game \<Rightarrow> nat + nat" where
  "Cell row column g =
     (if \<not> row < rows g then Inl 242
      else if \<not> column < columns g then Inl 243
      else Inr (row * columns g + column))"

definition findNeighbors :: "nat \<Rightarrow> game \<Rightarrow> nat + nat list" where
  "findNeighbors index g =
     (if \<not> index < length (cells g) then Inl 304
      else
        let row = index div columns g;
            column = index mod columns g;
            top = (row > 0);
            bottom = (row < rows g - 1);
            left = (column > 0);
            right = (column < columns g - 1)
        in Inr
          ((if top
            then (if left then [index - columns g - 1] else [])
                 @ [index - columns g]
                 @ (if right then [index - columns g + 1] else [])
            else [])
           @ (if left then [index - 1] else [])
           @ (if right then [index + 1] else [])
           @ (if bottom
              then (if left then [index + columns g - 1] else [])
                   @ [index + columns g]
                   @ (if right then [index + columns g + 1] else [])
              else [])))"

fun plantBomb_for :: "nat list \<Rightarrow> game \<Rightarrow> unit result" where
  "plantBomb_for [] g = Return () g"
| "plantBomb_for (i # neighbors) g =
     (case SetNumberOfNeighborBombs i (numberOfNeighborBombs (cells g ! i) + 1) g of
        Throw line g' \<Rightarrow> Throw line g'
      | Return _ g' \<Rightarrow> plantBomb_for neighbors g')"

definition plantBomb :: "nat \<Rightarrow> game \<Rightarrow> unit result" where
  "plantBomb index g =
     (if isBomb (cells g ! index) then Throw 360 g
      else case SetIsBomb index True g of
        Throw line g' \<Rightarrow> Throw line g'
      | Return _ g' \<Rightarrow>
          (case findNeighbors index g' of
             Inl line \<Rightarrow> Throw line g'
           | Inr neighbors \<Rightarrow> plantBomb_for neighbors g'))"

text \<open>
  \<^verbatim>\<open>plantBombs\<close> draws indices from \<^verbatim>\<open>uniform_int_distribution( 0, cells.size() - 1 )\<close>
  until \<^verbatim>\<open>bombs\<close> of them have been planted.  The random source is the list of the
  values it hands out, in order.  The loop has no bound of its own: \<open>None\<close> says that the
  list ended before the loop did, or that it holds a value the distribution cannot yield.
\<close>

fun plantBombs :: "nat list \<Rightarrow> nat \<Rightarrow> game \<Rightarrow> unit result option" where
  "plantBombs [] numberOfPlantedBombs g =
     (if \<not> numberOfPlantedBombs < bombs g then Some (Return () g) else None)"
| "plantBombs (index # draws) numberOfPlantedBombs g =
     (if \<not> numberOfPlantedBombs < bombs g then Some (Return () g)
      else if \<not> index < length (cells g) then None
      else if \<not> isBomb (cells g ! index)
      then (case plantBomb index g of
              Throw line g' \<Rightarrow> Some (Throw line g')
            | Return _ g' \<Rightarrow> plantBombs draws (numberOfPlantedBombs + 1) g')
      else plantBombs draws numberOfPlantedBombs g)"

definition NewGame0 :: "nat list \<Rightarrow> game \<Rightarrow> unit result option" where
  "NewGame0 draws g =
     plantBombs draws 0 ((reset g)\<lparr>cells := replicate (rows g * columns g) new_cell\<rparr>)"

text \<open>
  The third check compares with \<^verbatim>\<open>static_cast<size_t>( 0.93 * _rows * _columns )\<close>,
  which is reached only for \<open>9 \<le> _rows \<le> 24\<close> and \<open>9 \<le> _columns \<le> 30\<close>; on all of
  these the truncated double product is \<open>93 * _rows * _columns div 100\<close>.
\<close>

definition NewGame :: "nat \<Rightarrow> nat \<Rightarrow> nat \<Rightarrow> nat list \<Rightarrow> game \<Rightarrow> unit result option" where
  "NewGame r c b draws g =
     (if \<not> (r \<ge> 9 \<and> r \<le> 24) then Some (Throw 205 g)
      else if \<not> (c \<ge> 9 \<and> c \<le> 30) then Some (Throw 206 g)
      else if \<not> (b \<ge> 10 \<and> b \<le> 93 * r * c div 100) then Some (Throw 207 g)
      else NewGame0 draws (g\<lparr>rows := r, columns := c, bombs := b\<rparr>))"

definition CreateGame :: "nat \<Rightarrow> nat \<Rightarrow> nat \<Rightarrow> nat list \<Rightarrow> unit result option" where
  "CreateGame r c b draws = NewGame r c b draws CMinesweeperGame"

fun RestartGame_for :: "nat list \<Rightarrow> game \<Rightarrow> unit result" where
  "RestartGame_for [] g = Return () g"
| "RestartGame_for (index # rest) g =
     (case Close index g of
        Throw line g' \<Rightarrow> Throw line g'
      | Return _ g' \<Rightarrow> RestartGame_for rest g')"

definition RestartGame :: "game \<Rightarrow> unit result" where
  "RestartGame g = RestartGame_for [0 ..< length (cells g)] (reset g)"

definition ModifiedCells :: "game \<Rightarrow> (nat \<times> nat) list \<times> game" where
  "ModifiedCells g =
     (map (\<lambda>i. (i div columns g, i mod columns g)) (list_of_dlist (modifiedCellIndices g)),
      g\<lparr>modifiedCellIndices := Dlist.empty\<rparr>)"

fun openBombs_for :: "nat list \<Rightarrow> game \<Rightarrow> unit result" where
  "openBombs_for [] g = Return () g"
| "openBombs_for (i # rest) g =
     (if isBomb (cells g ! i)
      then (case InternalOpen i g of
              Throw line g' \<Rightarrow> Throw line g'
            | Return _ g' \<Rightarrow> openBombs_for rest g')
      else openBombs_for rest g)"

definition openBombs :: "game \<Rightarrow> unit result" where
  "openBombs g =
     (case openBombs_for [0 ..< length (cells g)] g of
        Throw line g' \<Rightarrow> Throw line g'
      | Return _ g' \<Rightarrow> Return () (g'\<lparr>state := MGS_Failure\<rparr>))"

definition open_cell :: "nat \<Rightarrow> game \<Rightarrow> bool result" where
  "open_cell index g =
     (if \<not> isOpened (cells g ! index) \<and> label (cells g ! index) = MCL_None
      then (case InternalOpen index g of
              Throw line g' \<Rightarrow> Throw line g'
            | Return _ g' \<Rightarrow>
                if isBomb (cells g' ! index)
                then (case openBombs g' of
                        Throw line g'' \<Rightarrow> Throw line g''
                      | Return _ g'' \<Rightarrow> Return False g'')
                else Return True (g'\<lparr>numberOfOpenedCells := numberOfOpenedCells g' + 1\<rparr>))
      else Return True g)"

text \<open>
  The local \<^verbatim>\<open>unordered_set<size_t> unprocessed\<close> of \<^verbatim>\<open>openNeighbors\<close> is a list used
  as a set: \<^verbatim>\<open>insert\<close> adds an index only when it is absent (\<^const>\<open>List.insert\<close>),
  \<^verbatim>\<open>erase\<close> removes it (\<^const>\<open>removeAll\<close>), \<^verbatim>\<open>empty()\<close> compares with \<open>[]\<close>.

  The body of the \<^verbatim>\<open>for\<close> loop of \<^verbatim>\<open>openNeighbors\<close>.  The Boolean of the result is
  \<open>False\<close> when the loop left the function through \<^verbatim>\<open>return\<close>.
\<close>

fun openNeighbors_for :: "nat list \<Rightarrow> nat list \<Rightarrow> game \<Rightarrow> (bool \<times> nat list) result" where
  "openNeighbors_for [] unprocessed g = Return (True, unprocessed) g"
| "openNeighbors_for (neighborIndex # rest) unprocessed g =
     (if \<not> isOpened (cells g ! neighborIndex)
      then (case open_cell neighborIndex g of
              Throw line g' \<Rightarrow> Throw line g'
            | Return ok g' \<Rightarrow>
                if \<not> ok then Return (False, unprocessed) g'
                else if numberOfNeighborBombs (cells g' ! neighborIndex) = 0
                then openNeighbors_for rest (List.insert neighborIndex unprocessed) g'
                else openNeighbors_for rest unprocessed g')
      else openNeighbors_for rest unprocessed g)"

text \<open>
  The \<^verbatim>\<open>while\<close> loop of \<^verbatim>\<open>openNeighbors\<close>.  Which element \<^verbatim>\<open>unprocessed.begin()\<close>
  designates is up to the hash table; the parameter \<open>pick\<close> stands for that choice: the
  loop takes the element at position \<open>pick xs mod length xs\<close> of the current contents
  \<open>xs\<close>, so every \<open>pick\<close> chooses an element of the set.  The loop may run forever:
  the result \<open>None\<close> is a call that does not return.
\<close>

partial_function (option) openNeighbors_while ::
    "(nat list \<Rightarrow> nat) \<Rightarrow> nat list \<Rightarrow> game \<Rightarrow> unit result option" where
  "openNeighbors_while pick unprocessed g =
     (if unprocessed = [] then Some (Return () g)
      else
        let current = unprocessed ! (pick unprocessed mod length unprocessed)
        in case findNeighbors current g of
             Inl line \<Rightarrow> Some (Throw line g)
           | Inr neighbors \<Rightarrow>
               (case openNeighbors_for neighbors (removeAll current unprocessed) g of
                  Throw line g' \<Rightarrow> Some (Throw line g')
                | Return (continue, unprocessed') g' \<Rightarrow>
                    if continue then openNeighbors_while pick unprocessed' g'
                    else Some (Return () g')))"

declare openNeighbors_while.simps [code]

definition openNeighbors :: "(nat list \<Rightarrow> nat) \<Rightarrow> nat \<Rightarrow> game \<Rightarrow> unit result option" where
  "openNeighbors pick index g = openNeighbors_while pick (List.insert index []) g"

definition CalculateNumberOfNeighborCellsLabeledAsBombs :: "nat \<Rightarrow> game \<Rightarrow> nat + nat" where
  "CalculateNumberOfNeighborCellsLabeledAsBombs index g =
     (case findNeighbors index g of
        Inl line \<Rightarrow> Inl line
      | Inr neighbors \<Rightarrow>
          Inr (length (filter (\<lambda>i. \<not> isOpened (cells g ! i) \<and> label (cells g ! i) = MCL_Bomb)
                 neighbors)))"

definition hasSuccess :: "game \<Rightarrow> bool result" where
  "hasSuccess g =
     (if state g \<noteq> MGS_Active then Throw 448 g
      else
        let numberOfSafeCells = length (cells g) - bombs g
        in if \<not> numberOfOpenedCells g \<le> numberOfSafeCells then Throw 450 g
           else if numberOfOpenedCells g = numberOfSafeCells
           then Return True (g\<lparr>state := MGS_Success\<rparr>)
           else Return False g)"

definition OnOpen :: "(nat list \<Rightarrow> nat) \<Rightarrow> nat \<Rightarrow> game \<Rightarrow> unit result option" where
  "OnOpen pick index g =
     (if state g \<noteq> MGS_Active then Some (Throw 266 g)
      else if \<not> index < length (cells g) then Some (Throw 269 g)
      else if isOpened (cells g ! index)
      then (case CalculateNumberOfNeighborCellsLabeledAsBombs index g of
              Inl line \<Rightarrow> Some (Throw line g)
            | Inr n \<Rightarrow>
                if numberOfNeighborBombs (cells g ! index) = n
                then openNeighbors pick index g
                else Some (Return () g))
      else (case open_cell index g of
              Throw line g' \<Rightarrow> Some (Throw line g')
            | Return ok g' \<Rightarrow>
                if ok
                then (case hasSuccess g' of
                        Throw line g'' \<Rightarrow> Some (Throw line g'')
                      | Return won g'' \<Rightarrow>
                          if \<not> won \<and> numberOfNeighborBombs (cells g'' ! index) = 0
                          then openNeighbors pick index g''
                          else Some (Return () g''))
                else Some (Return () g')))"


subsection \<open>Reachable games\<close>

text \<open>
  A game object exists only as the result of \<^verbatim>\<open>CreateGame\<close>; afterwards its owner calls
  the public interface.  A cell handle comes from \<^verbatim>\<open>Cell( row, column )\<close>.  A call that
  throws leaves the object in use, in the state the exception left it in.  The order in
  which the worklist of \<^verbatim>\<open>openNeighbors\<close> hands out its elements may differ from call to
  call.
\<close>

inductive reachable :: "game \<Rightarrow> bool" where
  created: "CreateGame r c b draws = Some (Return () g) \<Longrightarrow> reachable g"
| new_game: "reachable g \<Longrightarrow> NewGame r c b draws g = Some res \<Longrightarrow> reachable (game_of res)"
| new_game0: "reachable g \<Longrightarrow> NewGame0 draws g = Some res \<Longrightarrow> reachable (game_of res)"
| restarted: "reachable g \<Longrightarrow> reachable (game_of (RestartGame g))"
| labelled: "reachable g \<Longrightarrow> Cell row column g = Inr i \<Longrightarrow> reachable (game_of (SetLabel i l g))"
| opened: "reachable g \<Longrightarrow> Cell row column g = Inr i \<Longrightarrow> OnOpen pick i g = Some res
    \<Longrightarrow> reachable (game_of res)"
| drained: "reachable g \<Longrightarrow> reachable (snd (ModifiedCells g))"

text \<open>What every reachable game satisfies (lemma \<open>reachable_well_formed\<close> below).\<close>

definition well_formed :: "game \<Rightarrow> bool" where
  "well_formed g \<longleftrightarrow>
     9 \<le> rows g \<and> rows g \<le> 24 \<and> 9 \<le> columns g \<and> columns g \<le> 30 \<and>
     10 \<le> bombs g \<and> bombs g \<le> 93 * rows g * columns g div 100 \<and>
     length (cells g) = rows g * columns g \<and>
     list_all (\<lambda>i. i < length (cells g)) (list_of_dlist (modifiedCellIndices g))"

subsection \<open>Relations between the games of a run\<close>

text \<open>
  \<open>opens_only g g'\<close>: the game \<open>g'\<close> has the dimensions of \<open>g\<close>, and each of its cells is
  the cell of \<open>g\<close>, possibly opened; its set of modified cells has lost nothing, has
  gained indices of the grid only, and holds every cell that is opened in \<open>g'\<close> and was
  closed in \<open>g\<close>.
\<close>

definition opens_only :: "game \<Rightarrow> game \<Rightarrow> bool" where
  "opens_only g g' \<longleftrightarrow>
     rows g' = rows g \<and> columns g' = columns g \<and> bombs g' = bombs g \<and>
     length (cells g') = length (cells g) \<and>
     (\<forall>k < length (cells g).
        isBomb (cells g' ! k) = isBomb (cells g ! k) \<and>
        label (cells g' ! k) = label (cells g ! k) \<and>
        numberOfNeighborBombs (cells g' ! k) = numberOfNeighborBombs (cells g ! k) \<and>
        (isOpened (cells g ! k) \<longrightarrow> isOpened (cells g' ! k))) \<and>
     set (list_of_dlist (modifiedCellIndices g'))
       \<subseteq> set (list_of_dlist (modifiedCellIndices g)) \<union> {..< length (cells g)} \<and>
     set (list_of_dlist (modifiedCellIndices g)) \<subseteq> set (list_of_dlist (modifiedCellIndices g')) \<and>
     (\<forall>k < length (cells g).
        isOpened (cells g' ! k) \<and> \<not> isOpened (cells g ! k)
        \<longrightarrow> k \<in> set (list_of_dlist (modifiedCellIndices g')))"

text \<open>\<open>no_new_mine g g'\<close>: every mine that is opened in \<open>g'\<close> was opened in \<open>g\<close>.\<close>

definition no_new_mine :: "game \<Rightarrow> game \<Rightarrow> bool" where
  "no_new_mine g g' \<longleftrightarrow>
     (\<forall>k < length (cells g). isBomb (cells g ! k) \<and> isOpened (cells g' ! k) \<longrightarrow> isOpened (cells g ! k))"

definition quiet :: "game \<Rightarrow> game \<Rightarrow> bool" where
  "quiet g g' \<longleftrightarrow> opens_only g g' \<and> no_new_mine g g'"

text \<open>
  \<open>lost_from g g'\<close>: starting from \<open>g\<close>, cells that are no mines were opened, then an
  \<^verbatim>\<open>open\<close> hit a mine, and \<open>g'\<close> is the game as that very \<^verbatim>\<open>open\<close> returned it: the state
  is \<^verbatim>\<open>MGS_Failure\<close> and every mine is opened.
\<close>

definition lost_from :: "game \<Rightarrow> game \<Rightarrow> bool" where
  "lost_from g g' \<longleftrightarrow>
     opens_only g g' \<and> state g' = MGS_Failure \<and>
     (\<forall>k < length (cells g'). isBomb (cells g' ! k) \<longrightarrow> isOpened (cells g' ! k)) \<and>
     (\<exists>g1 n. quiet g g1 \<and> state g1 = MGS_Active \<and> open_cell n g1 = Return False g')"

definition flood_ok :: "game \<Rightarrow> unit result \<Rightarrow> bool" where
  "flood_ok g res \<longleftrightarrow>
     (quiet g (game_of res) \<and> state (game_of res) = MGS_Active)
     \<or> (\<exists>g'. res = Return () g' \<and> lost_from g g')"

text \<open>\<open>same_grid g g'\<close>: planting changes the cells only, and not their number.\<close>

definition same_grid :: "game \<Rightarrow> game \<Rightarrow> bool" where
  "same_grid g g' \<longleftrightarrow>
     state g' = state g \<and> rows g' = rows g \<and> columns g' = columns g \<and> bombs g' = bombs g \<and>
     length (cells g') = length (cells g) \<and>
     numberOfOpenedCells g' = numberOfOpenedCells g \<and>
     modifiedCellIndices g' = modifiedCellIndices g"

text \<open>\<open>closed_cells ks g g'\<close>: \<open>g'\<close> is \<open>g\<close> after \<^verbatim>\<open>Close()\<close> on the cells \<open>ks\<close>.\<close>

definition closed_cells :: "nat list \<Rightarrow> game \<Rightarrow> game \<Rightarrow> bool" where
  "closed_cells ks g g' \<longleftrightarrow>
     state g' = state g \<and> rows g' = rows g \<and> columns g' = columns g \<and> bombs g' = bombs g
     \<and> numberOfOpenedCells g' = numberOfOpenedCells g
     \<and> length (cells g') = length (cells g)
     \<and> (\<forall>k < length (cells g).
           cells g' ! k = (if k \<in> set ks
                           then (cells g ! k)\<lparr>isOpened := False, label := MCL_None\<rparr>
                           else cells g ! k))
     \<and> set (list_of_dlist (modifiedCellIndices g'))
         = set ks \<union> set (list_of_dlist (modifiedCellIndices g))"

text \<open>The neighbours of a cell of the grid, as \<^verbatim>\<open>findNeighbors\<close> lists them.\<close>

definition neighbours :: "nat \<Rightarrow> game \<Rightarrow> nat list" where
  "neighbours i g = (case findNeighbors i g of Inl line \<Rightarrow> [] | Inr ns \<Rightarrow> ns)"

text \<open>
  \<open>zero_means_safe g\<close>: the neighbours of a cell with the stored count zero are cells of
  the grid and none of them is a mine.
\<close>

definition zero_means_safe :: "game \<Rightarrow> bool" where
  "zero_means_safe g \<longleftrightarrow>
     list_all (\<lambda>i. numberOfNeighborBombs (cells g ! i) = 0
                   \<longrightarrow> list_all (\<lambda>n. n < length (cells g) \<and> \<not> isBomb (cells g ! n))
                         (neighbours i g))
       [0 ..< length (cells g)]"

text \<open>\<open>waiting a g\<close>: the cell \<open>a\<close> is closed, carries a label and stores the count zero.\<close>

definition waiting :: "nat \<Rightarrow> game \<Rightarrow> bool" where
  "waiting a g \<longleftrightarrow>
     a < length (cells g) \<and> \<not> isOpened (cells g ! a) \<and> label (cells g ! a) \<noteq> MCL_None
     \<and> numberOfNeighborBombs (cells g ! a) = 0"

text \<open>
  \<open>stuck a b u g\<close>: the worklist \<open>u\<close> of \<^verbatim>\<open>openNeighbors\<close> holds cells with the stored
  count zero, one of them next to \<open>a\<close> or \<open>b\<close>, and \<open>a\<close> and \<open>b\<close> are neighbours that both
  wait.
\<close>

definition stuck :: "nat \<Rightarrow> nat \<Rightarrow> nat list \<Rightarrow> game \<Rightarrow> bool" where
  "stuck a b u g \<longleftrightarrow>
     state g = MGS_Active \<and> zero_means_safe g
     \<and> waiting a g \<and> waiting b g
     \<and> a \<in> set (neighbours b g) \<and> b \<in> set (neighbours a g)
     \<and> list_all (\<lambda>x. x < length (cells g) \<and> numberOfNeighborBombs (cells g ! x) = 0) u
     \<and> list_ex (\<lambda>x. a \<in> set (neighbours x g) \<or> b \<in> set (neighbours x g)) u"

text \<open>\<open>keeps_labelled g g'\<close>: no cell that is closed and labelled in \<open>g\<close> is opened in \<open>g'\<close>.\<close>

definition keeps_labelled :: "game \<Rightarrow> game \<Rightarrow> bool" where
  "keeps_labelled g g' \<longleftrightarrow>
     (\<forall>k < length (cells g).
        isOpened (cells g' ! k) \<longrightarrow> isOpened (cells g ! k) \<or> label (cells g ! k) = MCL_None)"

text \<open>
  A caller that opens the cells of a list one after the other, as the loop of \<^verbatim>\<open>main\<close>
  does with the cells it draws, until a call throws or does not return.
\<close>

fun open_cells :: "(nat list \<Rightarrow> nat) \<Rightarrow> nat list \<Rightarrow> game \<Rightarrow> unit result option" where
  "open_cells pick [] g = Some (Return () g)"
| "open_cells pick (i # rest) g =
     (case OnOpen pick i g of
        None \<Rightarrow> None
      | Some (Throw line g') \<Rightarrow> Some (Throw line g')
      | Some (Return _ g') \<Rightarrow> open_cells pick rest g')"

subsection \<open>Boards for the concrete runs\<close>

text \<open>
  A cell is written with two characters.  The first is \<open>*\<close> for a mine, \<open>.\<close> for a stored
  count of zero, or the digit of the stored count; the second is \<open>o\<close> for an opened cell,
  \<open>-\<close> for a closed cell without label, \<open>B\<close> or \<open>Q\<close> for a closed cell labelled
  \<^verbatim>\<open>MCL_Bomb\<close> or \<^verbatim>\<open>MCL_Question\<close>.
\<close>

definition cell_of :: "char \<Rightarrow> char \<Rightarrow> cell" where
  "cell_of a b =
     \<lparr>isBomb = (a = CHR ''*''),
      isOpened = (b = CHR ''o''),
      label = (if b = CHR ''B'' then MCL_Bomb else if b = CHR ''Q'' then MCL_Question else MCL_None),
      numberOfNeighborBombs = (if a = CHR ''*'' \<or> a = CHR ''.'' then 0 else of_char a - 48)\<rparr>"

fun cells_of :: "string \<Rightarrow> cell list" where
  "cells_of (a # b # s) = cell_of a b # cells_of s"
| "cells_of _ = []"

text \<open>The policy that takes the first element of the worklist.\<close>

definition pick_first :: "nat list \<Rightarrow> nat" where
  "pick_first xs = 0"

definition drawsB :: "nat list" where
  "drawsB = [2, 18, 20, 44, 4, 76, 80, 8, 54, 40]"

definition boardB :: game where
  "boardB =
     \<lparr>state = MGS_Active, rows = 9, columns = 9, bombs = 10,
      cells = cells_of (concat
       [''.-1-*-2-*-1-.-1-*-'',
        ''1-3-2-3-1-1-.-1-1-'',
        ''*-2-*-1-.-.-.-.-.-'',
        ''1-2-1-2-1-1-.-1-1-'',
        ''.-.-.-1-*-1-.-1-*-'',
        ''1-1-.-1-1-1-.-1-1-'',
        ''*-1-.-.-.-.-.-.-.-'',
        ''1-1-.-1-1-1-.-1-1-'',
        ''.-.-.-1-*-1-.-1-*-'']),
      numberOfOpenedCells = 0,
      modifiedCellIndices = dlist_of_list []\<rparr>"

text \<open>The mines of \<open>boardB\<close> are opened: the game after \<^verbatim>\<open>Open()\<close> on the cell 2.\<close>

definition boardB_lost :: game where
  "boardB_lost =
     \<lparr>state = MGS_Failure, rows = 9, columns = 9, bombs = 10,
      cells = cells_of (concat
       [''.-1-*o2-*o1-.-1-*o'',
        ''1-3-2-3-1-1-.-1-1-'',
        ''*o2-*o1-.-.-.-.-.-'',
        ''1-2-1-2-1-1-.-1-1-'',
        ''.-.-.-1-*o1-.-1-*o'',
        ''1-1-.-1-1-1-.-1-1-'',
        ''*o1-.-.-.-.-.-.-.-'',
        ''1-1-.-1-1-1-.-1-1-'',
        ''.-.-.-1-*o1-.-1-*o'']),
      numberOfOpenedCells = 0,
      modifiedCellIndices = dlist_of_list [80, 76, 54, 44, 40, 20, 18, 8, 4, 2]\<rparr>"

text \<open>
  Draws in which 41 is next to 42, 40 next to 41 and 39 next to 40; \<open>boardA\<close> is the game
  that \<^verbatim>\<open>CreateGame( 9, 9, 10 )\<close> makes of them.
\<close>

definition drawsA :: "nat list" where
  "drawsA = [2, 18, 20, 42, 41, 40, 39, 6, 78, 72]"

definition boardA :: game where
  "boardA =
     \<lparr>state = MGS_Active, rows = 9, columns = 9, bombs = 10,
      cells = cells_of (concat
       [''.-1-*-1-.-1-*-1-.-'',
        ''1-3-2-2-.-1-1-1-.-'',
        ''*-2-*-1-.-.-.-.-.-'',
        ''1-2-2-3-3-3-2-1-.-'',
        ''.-.-1-*-1-1-1-1-.-'',
        ''.-.-1-2-3-3-2-1-.-'',
        ''.-.-.-.-.-.-.-.-.-'',
        ''1-1-.-.-.-1-1-1-.-'',
        ''*-1-.-.-.-1-*-1-.-'']),
      numberOfOpenedCells = 0,
      modifiedCellIndices = dlist_of_list []\<rparr>"

text \<open>\<open>boardB\<close> with the label \<^verbatim>\<open>MCL_Question\<close> on the cell 0, and after \<^verbatim>\<open>Open()\<close> on that cell.\<close>

definition boardB_q :: game where
  "boardB_q =
     \<lparr>state = MGS_Active, rows = 9, columns = 9, bombs = 10,
      cells = cells_of (concat
       [''.Q1-*-2-*-1-.-1-*-'',
        ''1-3-2-3-1-1-.-1-1-'',
        ''*-2-*-1-.-.-.-.-.-'',
        ''1-2-1-2-1-1-.-1-1-'',
        ''.-.-.-1-*-1-.-1-*-'',
        ''1-1-.-1-1-1-.-1-1-'',
        ''*-1-.-.-.-.-.-.-.-'',
        ''1-1-.-1-1-1-.-1-1-'',
        ''.-.-.-1-*-1-.-1-*-'']),
      numberOfOpenedCells = 0,
      modifiedCellIndices = dlist_of_list [0]\<rparr>"

definition boardB_q1 :: game where
  "boardB_q1 =
     \<lparr>state = MGS_Active, rows = 9, columns = 9, bombs = 10,
      cells = cells_of (concat
       [''.Q1o*-2-*-1-.-1-*-'',
        ''1o3o2-3-1-1-.-1-1-'',
        ''*-2-*-1-.-.-.-.-.-'',
        ''1-2-1-2-1-1-.-1-1-'',
        ''.-.-.-1-*-1-.-1-*-'',
        ''1-1-.-1-1-1-.-1-1-'',
        ''*-1-.-.-.-.-.-.-.-'',
        ''1-1-.-1-1-1-.-1-1-'',
        ''.-.-.-1-*-1-.-1-*-'']),
      numberOfOpenedCells = 3,
      modifiedCellIndices = dlist_of_list [10, 9, 1, 0]\<rparr>"

text \<open>
  \<open>boardB\<close> with the label \<^verbatim>\<open>MCL_Question\<close> on the cells 15 and 24, and the same game
  after \<^verbatim>\<open>open( 6 )\<close>.
\<close>

definition boardB_trap :: game where
  "boardB_trap =
     \<lparr>state = MGS_Active, rows = 9, columns = 9, bombs = 10,
      cells = cells_of (concat
       [''.-1-*-2-*-1-.-1-*-'',
        ''1-3-2-3-1-1-.Q1-1-'',
        ''*-2-*-1-.-.-.Q.-.-'',
        ''1-2-1-2-1-1-.-1-1-'',
        ''.-.-.-1-*-1-.-1-*-'',
        ''1-1-.-1-1-1-.-1-1-'',
        ''*-1-.-.-.-.-.-.-.-'',
        ''1-1-.-1-1-1-.-1-1-'',
        ''.-.-.-1-*-1-.-1-*-'']),
      numberOfOpenedCells = 0,
      modifiedCellIndices = dlist_of_list [24, 15]\<rparr>"

definition boardB_trap1 :: game where
  "boardB_trap1 =
     \<lparr>state = MGS_Active, rows = 9, columns = 9, bombs = 10,
      cells = cells_of (concat
       [''.-1-*-2-*-1-.o1-*-'',
        ''1-3-2-3-1-1-.Q1-1-'',
        ''*-2-*-1-.-.-.Q.-.-'',
        ''1-2-1-2-1-1-.-1-1-'',
        ''.-.-.-1-*-1-.-1-*-'',
        ''1-1-.-1-1-1-.-1-1-'',
        ''*-1-.-.-.-.-.-.-.-'',
        ''1-1-.-1-1-1-.-1-1-'',
        ''.-.-.-1-*-1-.-1-*-'']),
      numberOfOpenedCells = 1,
      modifiedCellIndices = dlist_of_list [6, 24, 15]\<rparr>"

text \<open>
  \<open>boardB\<close> after \<^verbatim>\<open>Open()\<close> on the cells 6, 3, 11 and 19: every cell without a mine is
  opened but 0, 1, 9 and 10.  Then after \<^verbatim>\<open>Open()\<close> on the cell 0.
\<close>

definition boardB4 :: game where
  "boardB4 =
     \<lparr>state = MGS_Active, rows = 9, columns = 9, bombs = 10,
      cells = cells_of (concat
       [''.-1-*-2o*-1o.o1o*-'',
        ''1-3-2o3o1o1o.o1o1o'',
        ''*-2o*-1o.o.o.o.o.o'',
        ''1o2o1o2o1o1o.o1o1o'',
        ''.o.o.o1o*-1o.o1o*-'',
        ''1o1o.o1o1o1o.o1o1o'',
        ''*-1o.o.o.o.o.o.o.o'',
        ''1o1o.o1o1o1o.o1o1o'',
        ''.o.o.o1o*-1o.o1o*-'']),
      numberOfOpenedCells = 67,
      modifiedCellIndices = dlist_of_list [19, 11, 3, 21, 12, 31, 22, 13, 45, 36, 27, 30, 29, 28, 39, 38, 37, 46, 72, 63, 75, 74, 73, 64, 55, 65, 56, 47, 66, 57, 48, 67, 58, 49, 79, 78, 77, 68, 71, 70, 69, 62, 53, 61, 60, 59, 52, 51, 50, 43, 42, 41, 32, 35, 34, 33, 26, 17, 25, 24, 23, 16, 15, 14, 7, 5, 6]\<rparr>"

definition boardB5 :: game where
  "boardB5 =
     \<lparr>state = MGS_Active, rows = 9, columns = 9, bombs = 10,
      cells = cells_of (concat
       [''.o1o*-2o*-1o.o1o*-'',
        ''1o3o2o3o1o1o.o1o1o'',
        ''*-2o*-1o.o.o.o.o.o'',
        ''1o2o1o2o1o1o.o1o1o'',
        ''.o.o.o1o*-1o.o1o*-'',
        ''1o1o.o1o1o1o.o1o1o'',
        ''*-1o.o.o.o.o.o.o.o'',
        ''1o1o.o1o1o1o.o1o1o'',
        ''.o.o.o1o*-1o.o1o*-'']),
      numberOfOpenedCells = 71,
      modifiedCellIndices = dlist_of_list [10, 9, 1, 0, 19, 11, 3, 21, 12, 31, 22, 13, 45, 36, 27, 30, 29, 28, 39, 38, 37, 46, 72, 63, 75, 74, 73, 64, 55, 65, 56, 47, 66, 57, 48, 67, 58, 49, 79, 78, 77, 68, 71, 70, 69, 62, 53, 61, 60, 59, 52, 51, 50, 43, 42, 41, 32, 35, 34, 33, 26, 17, 25, 24, 23, 16, 15, 14, 7, 5, 6]\<rparr>"

text \<open>
  \<open>boardA\<close> after \<^verbatim>\<open>Open()\<close> on the cells 4, 11, 19, 40, 41 and 42: every cell without a
  mine is opened but 0, 1, 9 and 10.  Then after \<^verbatim>\<open>Open()\<close> on the cell 0.
\<close>

definition boardA6 :: game where
  "boardA6 =
     \<lparr>state = MGS_Active, rows = 9, columns = 9, bombs = 10,
      cells = cells_of (concat
       [''.-1-*-1o.o1o*-1o.o'',
        ''1-3-2o2o.o1o1o1o.o'',
        ''*-2o*-1o.o.o.o.o.o'',
        ''1o2o2o3o3o3o2o1o.o'',
        ''.o.o1o*-1o1o1o1o.o'',
        ''.o.o1o2o3o3o2o1o.o'',
        ''.o.o.o.o.o.o.o.o.o'',
        ''1o1o.o.o.o1o1o1o.o'',
        ''*-1o.o.o.o1o*-1o.o'']),
      numberOfOpenedCells = 70,
      modifiedCellIndices = dlist_of_list [42, 41, 40, 19, 11, 30, 8, 7, 29, 28, 27, 63, 54, 45, 38, 37, 36, 48, 47, 46, 56, 55, 73, 64, 74, 65, 77, 76, 75, 66, 57, 67, 58, 49, 68, 59, 50, 69, 60, 51, 80, 79, 71, 70, 62, 61, 53, 52, 44, 43, 35, 26, 17, 34, 25, 16, 33, 32, 31, 24, 15, 23, 22, 21, 14, 13, 12, 5, 3, 4]\<rparr>"

definition boardA7 :: game where
  "boardA7 =
     \<lparr>state = MGS_Success, rows = 9, columns = 9, bombs = 10,
      cells = cells_of (concat
       [''.o1-*-1o.o1o*-1o.o'',
        ''1-3-2o2o.o1o1o1o.o'',
        ''*-2o*-1o.o.o.o.o.o'',
        ''1o2o2o3o3o3o2o1o.o'',
        ''.o.o1o*-1o1o1o1o.o'',
        ''.o.o1o2o3o3o2o1o.o'',
        ''.o.o.o.o.o.o.o.o.o'',
        ''1o1o.o.o.o1o1o1o.o'',
        ''*-1o.o.o.o1o*-1o.o'']),
      numberOfOpenedCells = 71,
      modifiedCellIndices = dlist_of_list [0, 42, 41, 40, 19, 11, 30, 8, 7, 29, 28, 27, 63, 54, 45, 38, 37, 36, 48, 47, 46, 56, 55, 73, 64, 74, 65, 77, 76, 75, 66, 57, 67, 58, 49, 68, 59, 50, 69, 60, 51, 80, 79, 71, 70, 62, 61, 53, 52, 44, 43, 35, 26, 17, 34, 25, 16, 33, 32, 31, 24, 15, 23, 22, 21, 14, 13, 12, 5, 3, 4]\<rparr>"

section \<open>Properties\<close>

subsection \<open>Running the code on concrete games\<close>

lemma CreateGame_9_9_10:
  "CreateGame 9 9 10 draws =
     plantBombs draws 0
       \<lparr>state = MGS_Active, rows = 9, columns = 9, bombs = 10, cells = replicate 81 new_cell,
        numberOfOpenedCells = 0, modifiedCellIndices = Dlist.empty\<rparr>"
  by (simp add: CreateGame_def NewGame_def NewGame0_def reset_def CMinesweeperGame_def)

lemma CreateGame_boardB: "CreateGame 9 9 10 drawsB = Some (Return () boardB)"
  unfolding CreateGame_9_9_10 by code_simp

lemma reachable_boardB: "reachable boardB"
  by (rule reachable.created) (rule CreateGame_boardB)


lemma CreateGame_boardA: "CreateGame 9 9 10 drawsA = Some (Return () boardA)"
  unfolding CreateGame_9_9_10 by code_simp

lemma reachable_boardA: "reachable boardA"
  by (rule reachable.created) (rule CreateGame_boardA)

lemma OnOpen_closed_mine:
  assumes "state g = MGS_Active" and "i < length (cells g)" and "\<not> isOpened (cells g ! i)"
    and "open_cell i g = Return False g'"
  shows "OnOpen pick i g = Some (Return () g')"
  using assms by (simp add: OnOpen_def)

lemma OnOpen_boardB_mine: "OnOpen pick 2 boardB = Some (Return () boardB_lost)"
proof (rule OnOpen_closed_mine)
  show "state boardB = MGS_Active" by code_simp
  show "2 < length (cells boardB)" by code_simp
  show "\<not> isOpened (cells boardB ! 2)" by code_simp
  show "open_cell 2 boardB = Return False boardB_lost" by code_simp
qed

lemma Cell_boardB: "Cell 0 2 boardB = Inr 2"
  by code_simp

lemma reachable_boardB_lost: "reachable boardB_lost"
  using reachable.opened [OF reachable_boardB Cell_boardB OnOpen_boardB_mine] by simp

subsection \<open>What the operations leave alone\<close>

lemma nth_list_update_any:
  "xs[i := x] ! k = (if k = i \<and> i < length xs then x else xs ! k)"
  by (cases "i < length xs") (auto simp: nth_list_update list_update_beyond not_less)

lemma update_cell_fields [simp]:
  "state (update_cell i f g) = state g"
  "rows (update_cell i f g) = rows g"
  "columns (update_cell i f g) = columns g"
  "bombs (update_cell i f g) = bombs g"
  "numberOfOpenedCells (update_cell i f g) = numberOfOpenedCells g"
  "modifiedCellIndices (update_cell i f g) = modifiedCellIndices g"
  "length (cells (update_cell i f g)) = length (cells g)"
  by (simp_all add: update_cell_def)

lemma update_cell_nth:
  "cells (update_cell i f g) ! k =
     (if k = i \<and> i < length (cells g) then f (cells g ! i) else cells g ! k)"
  by (simp add: update_cell_def nth_list_update_any)

lemma update_cell_beyond: "\<not> i < length (cells g) \<Longrightarrow> cells (update_cell i f g) = cells g"
  by (simp add: update_cell_def list_update_beyond not_less)

lemma opens_only_refl [simp]: "opens_only g g"
  by (simp add: opens_only_def)

lemma opens_only_trans:
  assumes "opens_only g g'" and "opens_only g' g''"
  shows "opens_only g g''"
proof -
  let ?m = "\<lambda>g. set (list_of_dlist (modifiedCellIndices g))"
  from assms(1) have d1: "rows g' = rows g" "columns g' = columns g" "bombs g' = bombs g"
    "length (cells g') = length (cells g)"
    and c1: "\<And>k. k < length (cells g) \<Longrightarrow>
        isBomb (cells g' ! k) = isBomb (cells g ! k) \<and>
        label (cells g' ! k) = label (cells g ! k) \<and>
        numberOfNeighborBombs (cells g' ! k) = numberOfNeighborBombs (cells g ! k) \<and>
        (isOpened (cells g ! k) \<longrightarrow> isOpened (cells g' ! k))"
    and m1: "?m g' \<subseteq> ?m g \<union> {..< length (cells g)}" "?m g \<subseteq> ?m g'"
    and r1: "\<And>k. k < length (cells g) \<Longrightarrow>
        isOpened (cells g' ! k) \<and> \<not> isOpened (cells g ! k) \<Longrightarrow> k \<in> ?m g'"
    unfolding opens_only_def by blast+
  from assms(2) have d2: "rows g'' = rows g'" "columns g'' = columns g'" "bombs g'' = bombs g'"
    "length (cells g'') = length (cells g')"
    and c2: "\<And>k. k < length (cells g') \<Longrightarrow>
        isBomb (cells g'' ! k) = isBomb (cells g' ! k) \<and>
        label (cells g'' ! k) = label (cells g' ! k) \<and>
        numberOfNeighborBombs (cells g'' ! k) = numberOfNeighborBombs (cells g' ! k) \<and>
        (isOpened (cells g' ! k) \<longrightarrow> isOpened (cells g'' ! k))"
    and m2: "?m g'' \<subseteq> ?m g' \<union> {..< length (cells g')}" "?m g' \<subseteq> ?m g''"
    and r2: "\<And>k. k < length (cells g') \<Longrightarrow>
        isOpened (cells g'' ! k) \<and> \<not> isOpened (cells g' ! k) \<Longrightarrow> k \<in> ?m g''"
    unfolding opens_only_def by blast+
  have c: "\<forall>k < length (cells g).
        isBomb (cells g'' ! k) = isBomb (cells g ! k) \<and>
        label (cells g'' ! k) = label (cells g ! k) \<and>
        numberOfNeighborBombs (cells g'' ! k) = numberOfNeighborBombs (cells g ! k) \<and>
        (isOpened (cells g ! k) \<longrightarrow> isOpened (cells g'' ! k))"
    using c1 c2 d1(4) by simp
  have m: "?m g'' \<subseteq> ?m g \<union> {..< length (cells g)}" "?m g \<subseteq> ?m g''"
    using m1 m2 d1(4) by auto
  have r: "\<forall>k < length (cells g).
        isOpened (cells g'' ! k) \<and> \<not> isOpened (cells g ! k) \<longrightarrow> k \<in> ?m g''"
  proof (intro allI impI)
    fix k assume k: "k < length (cells g)"
      and o: "isOpened (cells g'' ! k) \<and> \<not> isOpened (cells g ! k)"
    show "k \<in> ?m g''"
    proof (cases "isOpened (cells g' ! k)")
      case True
      with r1 [OF k] o have "k \<in> ?m g'" by simp
      with m2(2) show ?thesis by auto
    next
      case False
      with r2 [of k] k d1(4) o show ?thesis by simp
    qed
  qed
  show ?thesis
    unfolding opens_only_def using d1 d2 c m r by (intro conjI) simp_all
qed

lemma quiet_opens_only: "quiet g g' \<Longrightarrow> opens_only g g'"
  by (simp add: quiet_def)

lemma quiet_refl [simp]: "quiet g g"
  by (simp add: quiet_def no_new_mine_def)

lemma no_new_mine_trans:
  assumes "opens_only g g'" "no_new_mine g g'" "no_new_mine g' g''"
  shows "no_new_mine g g''"
  unfolding no_new_mine_def
proof (intro allI impI)
  fix k assume k: "k < length (cells g)" and b: "isBomb (cells g ! k) \<and> isOpened (cells g'' ! k)"
  from assms(1) k have "isBomb (cells g' ! k) = isBomb (cells g ! k)" "k < length (cells g')"
    by (simp_all add: opens_only_def)
  with b assms(3) have "isOpened (cells g' ! k)" by (simp add: no_new_mine_def)
  with b assms(2) k show "isOpened (cells g ! k)" by (simp add: no_new_mine_def)
qed

lemma quiet_trans: "quiet g g' \<Longrightarrow> quiet g' g'' \<Longrightarrow> quiet g g''"
  unfolding quiet_def by (blast intro: opens_only_trans no_new_mine_trans)

lemma OnModified_cases:
  "OnModified i g = Throw line g' \<Longrightarrow> g' = g \<and> (state g \<noteq> MGS_Active \<or> \<not> i < length (cells g))"
  "OnModified i g = Return v g' \<Longrightarrow>
     g' = g\<lparr>modifiedCellIndices := Dlist.insert i (modifiedCellIndices g)\<rparr>
     \<and> state g = MGS_Active \<and> i < length (cells g)"
  by (auto simp: OnModified_def split: if_splits)

lemma opens_only_InternalOpen:
  assumes "i < length (cells g)"
  shows "opens_only g ((update_cell i (\<lambda>c. c\<lparr>isOpened := True\<rparr>) g)
           \<lparr>modifiedCellIndices := Dlist.insert i (modifiedCellIndices g)\<rparr>)"
  using assms by (auto simp: opens_only_def update_cell_nth)

lemma InternalOpen_Throw:
  assumes "state g = MGS_Active" and "InternalOpen i g = Throw line g'"
  shows "\<not> i < length (cells g) \<and> cells g' = cells g \<and> opens_only g g' \<and> state g' = MGS_Active"
proof -
  let ?g2 = "update_cell i (\<lambda>c. c\<lparr>isOpened := True\<rparr>) g"
  from assms(2) have t: "OnModified i ?g2 = Throw line g'"
    by (simp add: InternalOpen_def split: if_splits)
  from OnModified_cases(1) [OF t] assms(1) have g': "g' = ?g2" and i: "\<not> i < length (cells g)"
    by simp_all
  from i have "cells ?g2 = cells g" by (rule update_cell_beyond)
  with g' assms(1) i show ?thesis by (simp add: opens_only_def)
qed

lemma InternalOpen_Return:
  assumes "state g = MGS_Active" and "InternalOpen i g = Return v g'"
  shows "opens_only g g' \<and> state g' = MGS_Active
         \<and> numberOfOpenedCells g' = numberOfOpenedCells g
         \<and> (\<forall>k < length (cells g). isOpened (cells g' ! k) \<longleftrightarrow> isOpened (cells g ! k) \<or> k = i)"
proof (cases "isOpened (cells g ! i)")
  case True
  with assms have "g' = g" by (simp add: InternalOpen_def)
  with True assms(1) show ?thesis by auto
next
  case False
  let ?g2 = "update_cell i (\<lambda>c. c\<lparr>isOpened := True\<rparr>) g"
  from False assms(2) have t: "OnModified i ?g2 = Return v g'"
    by (simp add: InternalOpen_def)
  from OnModified_cases(2) [OF t]
  have g': "g' = ?g2\<lparr>modifiedCellIndices := Dlist.insert i (modifiedCellIndices ?g2)\<rparr>"
    and i: "i < length (cells g)" by simp_all
  from g' have g'': "g' = ?g2\<lparr>modifiedCellIndices := Dlist.insert i (modifiedCellIndices g)\<rparr>"
    by simp
  have "opens_only g g'" unfolding g'' using i by (rule opens_only_InternalOpen)
  moreover have "state g' = MGS_Active" "numberOfOpenedCells g' = numberOfOpenedCells g"
    using g'' assms(1) by simp_all
  moreover have "\<forall>k < length (cells g). isOpened (cells g' ! k) \<longleftrightarrow> isOpened (cells g ! k) \<or> k = i"
    using g'' i by (auto simp: update_cell_nth)
  ultimately show ?thesis by simp
qed

lemma openBombs_for_Return:
  assumes "state g = MGS_Active" and "\<forall>k \<in> set ks. k < length (cells g)"
  shows "\<exists>g'. openBombs_for ks g = Return () g' \<and> opens_only g g' \<and> state g' = MGS_Active
           \<and> numberOfOpenedCells g' = numberOfOpenedCells g
           \<and> (\<forall>k < length (cells g).
                 isOpened (cells g' ! k) \<longleftrightarrow>
                 isOpened (cells g ! k) \<or> (k \<in> set ks \<and> isBomb (cells g ! k)))"
  using assms
proof (induction ks arbitrary: g)
  case Nil
  then show ?case by simp
next
  case (Cons i ks)
  show ?case
  proof (cases "isBomb (cells g ! i)")
    case False
    from Cons.IH [of g] Cons.prems obtain g' where
      "openBombs_for ks g = Return () g'" "opens_only g g'" "state g' = MGS_Active"
      "numberOfOpenedCells g' = numberOfOpenedCells g"
      "\<forall>k < length (cells g).
          isOpened (cells g' ! k) \<longleftrightarrow> isOpened (cells g ! k) \<or> (k \<in> set ks \<and> isBomb (cells g ! k))"
      by auto
    with False show ?thesis by auto
  next
    case True
    from Cons.prems have i: "i < length (cells g)" by simp
    obtain g1 where r1: "InternalOpen i g = Return () g1"
    proof (cases "InternalOpen i g")
      case (Return v g1)
      then show ?thesis using that by simp
    next
      case (Throw line g1)
      from InternalOpen_Throw [OF Cons.prems(1) Throw] i show ?thesis by simp
    qed
    from InternalOpen_Return [OF Cons.prems(1) r1]
    have o1: "opens_only g g1" and s1: "state g1 = MGS_Active"
      and n1: "numberOfOpenedCells g1 = numberOfOpenedCells g"
      and c1: "\<forall>k < length (cells g). isOpened (cells g1 ! k) \<longleftrightarrow> isOpened (cells g ! k) \<or> k = i"
      by simp_all
    from o1 have len: "length (cells g1) = length (cells g)"
      and bomb: "\<forall>k < length (cells g). isBomb (cells g1 ! k) = isBomb (cells g ! k)"
      by (simp_all add: opens_only_def)
    from Cons.prems len have "\<forall>k \<in> set ks. k < length (cells g1)" by simp
    from Cons.IH [OF s1 this] obtain g' where
      r2: "openBombs_for ks g1 = Return () g'" and o2: "opens_only g1 g'"
      and s2: "state g' = MGS_Active"
      and n2: "numberOfOpenedCells g' = numberOfOpenedCells g1"
      and c2: "\<forall>k < length (cells g1).
          isOpened (cells g' ! k) \<longleftrightarrow> isOpened (cells g1 ! k) \<or> (k \<in> set ks \<and> isBomb (cells g1 ! k))"
      by auto
    have "openBombs_for (i # ks) g = Return () g'" using True r1 r2 by simp
    moreover have "opens_only g g'" using o1 o2 by (rule opens_only_trans)
    moreover have "\<forall>k < length (cells g).
        isOpened (cells g' ! k) \<longleftrightarrow> isOpened (cells g ! k) \<or> (k \<in> set (i # ks) \<and> isBomb (cells g ! k))"
      using c1 c2 len bomb True by auto
    ultimately show ?thesis using s2 n1 n2 by simp
  qed
qed

lemma opens_only_set_fields [simp]:
  "opens_only g (g'\<lparr>state := s\<rparr>) = opens_only g g'"
  "opens_only g (g'\<lparr>numberOfOpenedCells := n\<rparr>) = opens_only g g'"
  by (simp_all add: opens_only_def)

lemma no_new_mine_set_fields [simp]:
  "no_new_mine g (g'\<lparr>state := s\<rparr>) = no_new_mine g g'"
  "no_new_mine g (g'\<lparr>numberOfOpenedCells := n\<rparr>) = no_new_mine g g'"
  by (simp_all add: no_new_mine_def)

lemma openBombs_Return:
  assumes "state g = MGS_Active"
  shows "\<exists>g'. openBombs g = Return () g' \<and> opens_only g g' \<and> state g' = MGS_Failure
           \<and> numberOfOpenedCells g' = numberOfOpenedCells g
           \<and> (\<forall>k < length (cells g).
                 isOpened (cells g' ! k) \<longleftrightarrow> isOpened (cells g ! k) \<or> isBomb (cells g ! k))"
proof -
  have "\<forall>k \<in> set [0 ..< length (cells g)]. k < length (cells g)" by simp
  from openBombs_for_Return [OF assms this] obtain g1 where
    "openBombs_for [0 ..< length (cells g)] g = Return () g1" "opens_only g g1"
    "numberOfOpenedCells g1 = numberOfOpenedCells g"
    "\<forall>k < length (cells g).
        isOpened (cells g1 ! k) \<longleftrightarrow>
        isOpened (cells g ! k) \<or> (k \<in> set [0 ..< length (cells g)] \<and> isBomb (cells g ! k))"
    by auto
  then show ?thesis by (simp add: openBombs_def)
qed

lemma lost_from_trans: "quiet g g1 \<Longrightarrow> lost_from g1 g' \<Longrightarrow> lost_from g g'"
  unfolding lost_from_def by (blast intro: quiet_trans opens_only_trans dest: quiet_opens_only)

lemma open_cell_Active:
  assumes "state g = MGS_Active"
  shows "open_cell n g = Return True g' \<Longrightarrow> quiet g g' \<and> state g' = MGS_Active"
    and "open_cell n g = Return False g' \<Longrightarrow> lost_from g g'"
    and "open_cell n g = Throw line g' \<Longrightarrow> quiet g g' \<and> state g' = MGS_Active"
proof -
  show "quiet g g' \<and> state g' = MGS_Active" if r: "open_cell n g = Return True g'"
  proof (cases "\<not> isOpened (cells g ! n) \<and> label (cells g ! n) = MCL_None")
    case False
    with r have "g' = g" by (auto simp: open_cell_def)
    with assms show ?thesis by simp
  next
    case True
    with r obtain g1 where r1: "InternalOpen n g = Return () g1"
      by (auto simp: open_cell_def split: result.splits if_splits)
    from InternalOpen_Return [OF assms r1]
    have o1: "opens_only g g1" and s1: "state g1 = MGS_Active"
      and c1: "\<forall>k < length (cells g). isOpened (cells g1 ! k) \<longleftrightarrow> isOpened (cells g ! k) \<or> k = n"
      by simp_all
    have nb: "\<not> isBomb (cells g1 ! n)" and g': "g' = g1\<lparr>numberOfOpenedCells := numberOfOpenedCells g1 + 1\<rparr>"
      using r True r1 openBombs_Return [OF s1]
      by (auto simp: open_cell_def split: if_splits)
    have "no_new_mine g g1"
      unfolding no_new_mine_def
    proof (intro allI impI)
      fix k assume k: "k < length (cells g)" and b: "isBomb (cells g ! k) \<and> isOpened (cells g1 ! k)"
      from o1 k have "isBomb (cells g1 ! k) = isBomb (cells g ! k)" by (simp add: opens_only_def)
      with b nb have "k \<noteq> n" by auto
      with c1 k b show "isOpened (cells g ! k)" by simp
    qed
    with o1 s1 g' show ?thesis by (simp add: quiet_def)
  qed
  show "lost_from g g'" if r: "open_cell n g = Return False g'"
  proof -
    from r have c: "\<not> isOpened (cells g ! n) \<and> label (cells g ! n) = MCL_None"
      by (auto simp: open_cell_def split: if_splits)
    with r obtain g1 where r1: "InternalOpen n g = Return () g1"
      by (auto simp: open_cell_def split: result.splits if_splits)
    from InternalOpen_Return [OF assms r1] have s1: "state g1 = MGS_Active"
      and o1: "opens_only g g1" by simp_all
    from openBombs_Return [OF s1] obtain g2 where
      r2: "openBombs g1 = Return () g2" and o2: "opens_only g1 g2" and s2: "state g2 = MGS_Failure"
      and c2: "\<forall>k < length (cells g1).
          isOpened (cells g2 ! k) \<longleftrightarrow> isOpened (cells g1 ! k) \<or> isBomb (cells g1 ! k)"
      by auto
    from r c r1 r2 have g': "g' = g2" by (auto simp: open_cell_def split: if_splits)
    from o2 have "length (cells g2) = length (cells g1)"
      "\<forall>k < length (cells g1). isBomb (cells g2 ! k) = isBomb (cells g1 ! k)"
      by (simp_all add: opens_only_def)
    with c2 have "\<forall>k < length (cells g2). isBomb (cells g2 ! k) \<longrightarrow> isOpened (cells g2 ! k)"
      by simp
    moreover have "quiet g g \<and> state g = MGS_Active \<and> open_cell n g = Return False g'"
      using assms r by simp
    moreover have "opens_only g g2" using o1 o2 by (rule opens_only_trans)
    ultimately show ?thesis unfolding lost_from_def g' using s2 g' by blast
  qed
  show "quiet g g' \<and> state g' = MGS_Active" if r: "open_cell n g = Throw line g'"
  proof -
    from r have c: "\<not> isOpened (cells g ! n) \<and> label (cells g ! n) = MCL_None"
      by (auto simp: open_cell_def split: if_splits)
    have "InternalOpen n g = Throw line g'"
    proof (cases "InternalOpen n g")
      case (Throw l1 g1)
      with r c show ?thesis by (simp add: open_cell_def)
    next
      case (Return v g1)
      from InternalOpen_Return [OF assms Return] have "state g1 = MGS_Active" by simp
      from openBombs_Return [OF this] r c Return show ?thesis
        by (auto simp: open_cell_def split: if_splits)
    qed
    from InternalOpen_Throw [OF assms this]
    have "cells g' = cells g" "opens_only g g'" "state g' = MGS_Active" by simp_all
    then show ?thesis by (simp add: quiet_def no_new_mine_def)
  qed
qed

lemma openNeighbors_for_Active:
  assumes "state g = MGS_Active" and "openNeighbors_for ns u g = res"
  shows "case res of
           Throw line g' \<Rightarrow> quiet g g' \<and> state g' = MGS_Active
         | Return (continue, u') g' \<Rightarrow>
             if continue then quiet g g' \<and> state g' = MGS_Active else lost_from g g'"
  using assms
proof (induction ns arbitrary: u g res)
  case Nil
  then show ?case by auto
next
  case (Cons n ns)
  show ?case
  proof (cases "isOpened (cells g ! n)")
    case True
    with Cons.prems have "openNeighbors_for ns u g = res" by simp
    from Cons.IH [OF Cons.prems(1) this] show ?thesis .
  next
    case False
    show ?thesis
    proof (cases "open_cell n g")
      case (Throw line g1)
      with False Cons.prems have "res = Throw line g1" by simp
      with open_cell_Active(3) [OF Cons.prems(1) Throw] show ?thesis by simp
    next
      case (Return ok g1)
      show ?thesis
      proof (cases ok)
        case False
        with \<open>\<not> isOpened (cells g ! n)\<close> Return Cons.prems have "res = Return (False, u) g1" by simp
        with open_cell_Active(2) [of g n g1] Cons.prems(1) Return False show ?thesis by simp
      next
        case True
        with open_cell_Active(1) [of g n g1] Cons.prems(1) Return
        have q1: "quiet g g1" and s1: "state g1 = MGS_Active" by simp_all
        obtain u1 where "openNeighbors_for ns u1 g1 = res"
          using \<open>\<not> isOpened (cells g ! n)\<close> Return True Cons.prems(2) by (simp split: if_splits)
        from Cons.IH [OF s1 this] q1 show ?thesis
          by (auto split: result.splits prod.splits if_splits intro: quiet_trans lost_from_trans)
      qed
    qed
  qed
qed

lemma flood_ok_trans: "quiet g g1 \<Longrightarrow> flood_ok g1 res \<Longrightarrow> flood_ok g res"
  unfolding flood_ok_def by (blast intro: quiet_trans lost_from_trans)

lemma openNeighbors_while_Active:
  assumes "openNeighbors_while pick u g = Some res" and "state g = MGS_Active"
  shows "flood_ok g res"
proof -
  have "state g = MGS_Active \<longrightarrow> flood_ok g res"
  proof (rule openNeighbors_while.raw_induct
      [where P = "\<lambda>pick u g res. state g = MGS_Active \<longrightarrow> flood_ok g res", OF _ assms(1)],
      goal_cases)
    case (1 loop pick u g res)
    show ?case
    proof
      assume a: "state g = MGS_Active"
      show "flood_ok g res"
      proof (cases "u = []")
        case True
        with 1(2) have "res = Return () g" by simp
        with a show ?thesis by (simp add: flood_ok_def)
      next
        case False
        let ?current = "u ! (pick u mod length u)"
        show ?thesis
        proof (cases "findNeighbors ?current g")
          case (Inl line)
          with False 1(2) have "res = Throw line g" by (simp add: Let_def)
          with a show ?thesis by (simp add: flood_ok_def)
        next
          case (Inr ns)
          note inner = openNeighbors_for_Active [OF a refl, of ns "removeAll ?current u"]
          show ?thesis
          proof (cases "openNeighbors_for ns (removeAll ?current u) g")
            case (Throw line g1)
            with False Inr 1(2) have "res = Throw line g1" by (simp add: Let_def)
            with inner Throw show ?thesis by (simp add: flood_ok_def)
          next
            case (Return cu g1)
            obtain continue u1 where cu: "cu = (continue, u1)" by (cases cu)
            show ?thesis
            proof (cases continue)
              case False
              with \<open>u \<noteq> []\<close> Inr Return cu 1(2) have "res = Return () g1" by (simp add: Let_def)
              with inner Return cu False show ?thesis by (simp add: flood_ok_def)
            next
              case True
              with inner Return cu have q: "quiet g g1" and s: "state g1 = MGS_Active" by simp_all
              from \<open>u \<noteq> []\<close> Inr Return cu True 1(2) have "loop pick u1 g1 = Some res"
                by (simp add: Let_def)
              from 1(1) [OF this] s have "flood_ok g1 res" by simp
              with q show ?thesis by (rule flood_ok_trans)
            qed
          qed
        qed
      qed
    qed
  qed
  with assms(2) show ?thesis by simp
qed

lemma hasSuccess_cases:
  "hasSuccess g = Throw line g' \<Longrightarrow> g' = g"
  "hasSuccess g = Return won g' \<Longrightarrow> g' = (if won then g\<lparr>state := MGS_Success\<rparr> else g)"
  by (auto simp: hasSuccess_def Let_def split: if_splits)

lemma OnOpen_Active:
  assumes "OnOpen pick i g = Some res"
  shows "quiet g (game_of res) \<or> (\<exists>g'. res = Return () g' \<and> lost_from g g')"
proof (cases "state g = MGS_Active \<and> i < length (cells g)")
  case False
  with assms have "game_of res = g" by (auto simp: OnOpen_def split: if_splits)
  then show ?thesis by simp
next
  case True
  then have a: "state g = MGS_Active" and i: "i < length (cells g)" by simp_all
  show ?thesis
  proof (cases "isOpened (cells g ! i)")
    case True
    show ?thesis
    proof (cases "CalculateNumberOfNeighborCellsLabeledAsBombs i g")
      case (Inl line)
      with a i True assms have "res = Throw line g" by (simp add: OnOpen_def)
      then show ?thesis by simp
    next
      case (Inr n)
      show ?thesis
      proof (cases "numberOfNeighborBombs (cells g ! i) = n")
        case False
        with a i True Inr assms have "res = Return () g" by (simp add: OnOpen_def)
        then show ?thesis by simp
      next
        case eq: True
        with a i True Inr assms have "openNeighbors_while pick (List.insert i []) g = Some res"
          by (simp add: OnOpen_def openNeighbors_def)
        from openNeighbors_while_Active [OF this a] show ?thesis
          by (auto simp: flood_ok_def)
      qed
    qed
  next
    case False
    show ?thesis
    proof (cases "open_cell i g")
      case (Throw line g1)
      with a i False assms have "res = Throw line g1" by (simp add: OnOpen_def)
      with open_cell_Active(3) [OF a Throw] show ?thesis by simp
    next
      case (Return ok g1)
      show ?thesis
      proof (cases ok)
        case no: False
        with a i False Return assms have "res = Return () g1" by (simp add: OnOpen_def)
        with open_cell_Active(2) [of g i g1] a Return no show ?thesis by simp
      next
        case ok: True
        with open_cell_Active(1) [of g i g1] a Return
        have q1: "quiet g g1" and s1: "state g1 = MGS_Active" by simp_all
        show ?thesis
        proof (cases "hasSuccess g1")
          case (Throw line g2)
          with a i False Return ok assms have "res = Throw line g2" by (simp add: OnOpen_def)
          with hasSuccess_cases(1) [OF Throw] q1 show ?thesis by simp
        next
          case r2: (Return won g2)
          note g2 = hasSuccess_cases(2) [OF r2]
          show ?thesis
          proof (cases "\<not> won \<and> numberOfNeighborBombs (cells g2 ! i) = 0")
            case False
            with a i \<open>\<not> isOpened (cells g ! i)\<close> Return ok r2 assms have "res = Return () g2"
              by (auto simp: OnOpen_def)
            moreover have "quiet g g2" using q1 g2 by (auto simp: quiet_def)
            ultimately show ?thesis by simp
          next
            case True
            with g2 have "g2 = g1" by simp
            with a i \<open>\<not> isOpened (cells g ! i)\<close> Return ok r2 True assms
            have "openNeighbors_while pick (List.insert i []) g1 = Some res"
              by (simp add: OnOpen_def openNeighbors_def)
            from openNeighbors_while_Active [OF this s1] have "flood_ok g1 res" .
            with q1 have "flood_ok g res" by (rule flood_ok_trans)
            then show ?thesis by (auto simp: flood_ok_def)
          qed
        qed
      qed
    qed
  qed
qed

subsection \<open>Reachable games are well formed\<close>

lemma well_formed_length: "well_formed g \<Longrightarrow> length (cells g) = rows g * columns g"
  unfolding well_formed_def by blast

lemma well_formed_modified:
  "well_formed g \<Longrightarrow> i \<in> set (list_of_dlist (modifiedCellIndices g)) \<Longrightarrow> i < length (cells g)"
  unfolding well_formed_def list_all_iff by blast

lemma well_formed_columns: "well_formed g \<Longrightarrow> 9 \<le> columns g"
  unfolding well_formed_def by blast

lemma well_formed_rows: "well_formed g \<Longrightarrow> 9 \<le> rows g"
  unfolding well_formed_def by blast

lemma well_formed_transfer:
  assumes "well_formed g"
    and "rows g' = rows g" "columns g' = columns g" "bombs g' = bombs g"
    and "length (cells g') = length (cells g)"
    and "\<And>i. i \<in> set (list_of_dlist (modifiedCellIndices g')) \<Longrightarrow> i < length (cells g)"
  shows "well_formed g'"
proof -
  from assms(1) have 1: "9 \<le> rows g" "rows g \<le> 24" "9 \<le> columns g" "columns g \<le> 30"
    "10 \<le> bombs g" "bombs g \<le> 93 * rows g * columns g div 100"
    "length (cells g) = rows g * columns g"
    unfolding well_formed_def by simp_all
  have 2: "\<forall>i \<in> set (list_of_dlist (modifiedCellIndices g')). i < length (cells g')"
    using assms(5,6) by simp
  show ?thesis
    unfolding well_formed_def list_all_iff assms(2-5)
    using 1 2 [unfolded assms(5)] by (intro conjI)
qed

lemma well_formed_opens_only:
  assumes "well_formed g" and "opens_only g g'"
  shows "well_formed g'"
proof (rule well_formed_transfer [OF assms(1)])
  from assms(2) show "rows g' = rows g" "columns g' = columns g" "bombs g' = bombs g"
    "length (cells g') = length (cells g)"
    by (simp_all add: opens_only_def)
  fix i assume "i \<in> set (list_of_dlist (modifiedCellIndices g'))"
  with assms(2) have "i \<in> set (list_of_dlist (modifiedCellIndices g)) \<or> i < length (cells g)"
    unfolding opens_only_def by blast
  with well_formed_modified [OF assms(1)] show "i < length (cells g)" by blast
qed

lemma same_grid_refl [simp]: "same_grid g g"
  by (simp add: same_grid_def)

lemma same_grid_trans: "same_grid g g' \<Longrightarrow> same_grid g' g'' \<Longrightarrow> same_grid g g''"
  by (simp add: same_grid_def)

lemma same_grid_update_cell [simp]: "same_grid g (update_cell i f g)"
  by (simp add: same_grid_def)

lemma SetNumberOfNeighborBombs_same_grid: "same_grid g (game_of (SetNumberOfNeighborBombs i n g))"
  by (simp add: SetNumberOfNeighborBombs_def)

lemma SetIsBomb_same_grid: "same_grid g (game_of (SetIsBomb i b g))"
  by (simp add: SetIsBomb_def)

lemma plantBomb_for_same_grid: "same_grid g (game_of (plantBomb_for ns g))"
proof (induction ns arbitrary: g)
  case Nil
  show ?case by simp
next
  case (Cons i ns)
  let ?r = "SetNumberOfNeighborBombs i (numberOfNeighborBombs (cells g ! i) + 1) g"
  have 1: "same_grid g (game_of ?r)" by (rule SetNumberOfNeighborBombs_same_grid)
  show ?case
  proof (cases ?r)
    case (Throw line g1)
    with 1 show ?thesis by simp
  next
    case (Return v g1)
    with 1 Cons.IH [of g1] show ?thesis by (auto intro: same_grid_trans)
  qed
qed

lemma plantBomb_same_grid: "same_grid g (game_of (plantBomb i g))"
proof -
  have 1: "same_grid g (game_of (SetIsBomb i True g))" by (rule SetIsBomb_same_grid)
  show ?thesis
  proof (cases "SetIsBomb i True g")
    case (Throw line g1)
    with 1 show ?thesis by (simp add: plantBomb_def)
  next
    case (Return v g1)
    with 1 have "same_grid g g1" by simp
    with plantBomb_for_same_grid [of g1] Return show ?thesis
      by (auto simp: plantBomb_def split: sum.splits intro: same_grid_trans)
  qed
qed

lemma plantBombs_same_grid:
  "plantBombs draws n g = Some res \<Longrightarrow> same_grid g (game_of res)"
proof (induction draws arbitrary: n g)
  case Nil
  then show ?case by (auto split: if_splits)
next
  case (Cons d draws)
  show ?case
  proof (cases "\<not> n < bombs g")
    case True
    with Cons.prems show ?thesis by auto
  next
    case False
    with Cons.prems have d: "d < length (cells g)" by (auto split: if_splits)
    show ?thesis
    proof (cases "isBomb (cells g ! d)")
      case True
      with False d Cons.prems have "plantBombs draws n g = Some res" by simp
      from Cons.IH [OF this] show ?thesis .
    next
      case nb: False
      have 1: "same_grid g (game_of (plantBomb d g))" by (rule plantBomb_same_grid)
      show ?thesis
      proof (cases "plantBomb d g")
        case (Throw line g1)
        with False d nb Cons.prems 1 show ?thesis by auto
      next
        case (Return v g1)
        with False d nb Cons.prems have "plantBombs draws (n + 1) g1 = Some res" by simp
        from Cons.IH [OF this] 1 Return show ?thesis by (auto intro: same_grid_trans)
      qed
    qed
  qed
qed

lemma NewGame0_well_formed:
  assumes "NewGame0 draws g = Some res"
    and "9 \<le> rows g" "rows g \<le> 24" "9 \<le> columns g" "columns g \<le> 30"
    and "10 \<le> bombs g" "bombs g \<le> 93 * rows g * columns g div 100"
  shows "well_formed (game_of res)"
proof -
  let ?g0 = "(reset g)\<lparr>cells := replicate (rows g * columns g) new_cell\<rparr>"
  from assms(1) have "same_grid ?g0 (game_of res)"
    unfolding NewGame0_def by (rule plantBombs_same_grid)
  then have s: "rows (game_of res) = rows ?g0" "columns (game_of res) = columns ?g0"
    "bombs (game_of res) = bombs ?g0" "length (cells (game_of res)) = length (cells ?g0)"
    "modifiedCellIndices (game_of res) = modifiedCellIndices ?g0"
    by (simp_all add: same_grid_def)
  have w: "well_formed ?g0"
    unfolding well_formed_def list_all_iff using assms(2-) by (intro conjI) (simp_all add: reset_def)
  show ?thesis
    by (rule well_formed_transfer [OF w s(1-4)]) (simp add: s(5) reset_def)
qed

lemma NewGame_well_formed:
  assumes "NewGame r c b draws g = Some res"
  shows "(\<exists>line. res = Throw line g) \<or> well_formed (game_of res)"
proof (cases "(r \<ge> 9 \<and> r \<le> 24) \<and> (c \<ge> 9 \<and> c \<le> 30) \<and> (b \<ge> 10 \<and> b \<le> 93 * r * c div 100)")
  case False
  with assms show ?thesis by (auto simp: NewGame_def split: if_splits)
next
  case True
  with assms have "NewGame0 draws (g\<lparr>rows := r, columns := c, bombs := b\<rparr>) = Some res"
    by (simp add: NewGame_def)
  from NewGame0_well_formed [OF this] True show ?thesis by simp
qed

lemma Close_Return:
  assumes "state g = MGS_Active" and "i < length (cells g)"
  shows "Close i g = Return ()
           ((update_cell i (\<lambda>c. c\<lparr>isOpened := False, label := MCL_None\<rparr>) g)
              \<lparr>modifiedCellIndices := Dlist.insert i (modifiedCellIndices g)\<rparr>)"
  using assms by (simp add: Close_def OnModified_def)

lemma closed_cells_Nil: "closed_cells [] g g"
  by (simp add: closed_cells_def)

lemma closed_cells_Cons:
  assumes "i < length (cells g)"
    and "closed_cells ks
           ((update_cell i (\<lambda>c. c\<lparr>isOpened := False, label := MCL_None\<rparr>) g)
              \<lparr>modifiedCellIndices := Dlist.insert i (modifiedCellIndices g)\<rparr>) g'"
  shows "closed_cells (i # ks) g g'"
  using assms unfolding closed_cells_def
  by (intro conjI; simp add: update_cell_nth)

lemma RestartGame_for_Return:
  assumes "state g = MGS_Active" and "\<forall>k \<in> set ks. k < length (cells g)"
  shows "\<exists>g'. RestartGame_for ks g = Return () g' \<and> closed_cells ks g g'"
  using assms
proof (induction ks arbitrary: g)
  case Nil
  then show ?case by (simp add: closed_cells_Nil)
next
  case (Cons i ks)
  let ?g1 = "(update_cell i (\<lambda>c. c\<lparr>isOpened := False, label := MCL_None\<rparr>) g)
              \<lparr>modifiedCellIndices := Dlist.insert i (modifiedCellIndices g)\<rparr>"
  from Cons.prems have i: "i < length (cells g)" by simp
  from Close_Return [OF Cons.prems(1) i] have c: "Close i g = Return () ?g1" .
  have s1: "state ?g1 = MGS_Active" using Cons.prems(1) by simp
  have "\<forall>k \<in> set ks. k < length (cells ?g1)" using Cons.prems(2) by simp
  from Cons.IH [OF s1 this] obtain g' where
    r: "RestartGame_for ks ?g1 = Return () g'" and cc: "closed_cells ks ?g1 g'"
    by blast
  have "RestartGame_for (i # ks) g = Return () g'" using c r by simp
  with closed_cells_Cons [OF i cc] show ?case by blast
qed

lemma RestartGame_Return:
  "\<exists>g'. RestartGame g = Return () g' \<and> state g' = MGS_Active
      \<and> rows g' = rows g \<and> columns g' = columns g \<and> bombs g' = bombs g
      \<and> numberOfOpenedCells g' = 0
      \<and> cells g' = map (\<lambda>c. c\<lparr>isOpened := False, label := MCL_None\<rparr>) (cells g)
      \<and> set (list_of_dlist (modifiedCellIndices g')) = {..< length (cells g)}"
proof -
  define g0 where "g0 = reset g"
  have g0: "state g0 = MGS_Active" "rows g0 = rows g" "columns g0 = columns g"
    "bombs g0 = bombs g" "numberOfOpenedCells g0 = 0" "cells g0 = cells g"
    "list_of_dlist (modifiedCellIndices g0) = []"
    by (simp_all add: g0_def reset_def)
  have b: "\<forall>k \<in> set [0 ..< length (cells g)]. k < length (cells g0)"
    by (simp add: g0(6))
  from RestartGame_for_Return [OF g0(1) b] obtain g' where
    r: "RestartGame_for [0 ..< length (cells g)] g0 = Return () g'"
    and cc: "closed_cells [0 ..< length (cells g)] g0 g'"
    by blast
  from cc have d: "state g' = state g0" "rows g' = rows g0" "columns g' = columns g0"
    "bombs g' = bombs g0" "numberOfOpenedCells g' = numberOfOpenedCells g0"
    and len: "length (cells g') = length (cells g0)"
    and n: "\<forall>k < length (cells g0).
           cells g' ! k = (if k \<in> set [0 ..< length (cells g)]
                           then (cells g0 ! k)\<lparr>isOpened := False, label := MCL_None\<rparr>
                           else cells g0 ! k)"
    and m: "set (list_of_dlist (modifiedCellIndices g'))
         = set [0 ..< length (cells g)] \<union> set (list_of_dlist (modifiedCellIndices g0))"
    unfolding closed_cells_def by blast+
  have "cells g' = map (\<lambda>c. c\<lparr>isOpened := False, label := MCL_None\<rparr>) (cells g)"
  proof (rule nth_equalityI)
    show "length (cells g') = length (map (\<lambda>c. c\<lparr>isOpened := False, label := MCL_None\<rparr>) (cells g))"
      using len g0(6) by simp
    fix k assume "k < length (cells g')"
    with len g0(6) have k: "k < length (cells g)" by simp
    with n g0(6) show "cells g' ! k = map (\<lambda>c. c\<lparr>isOpened := False, label := MCL_None\<rparr>) (cells g) ! k"
      by simp
  qed
  moreover have "set (list_of_dlist (modifiedCellIndices g')) = {..< length (cells g)}"
    unfolding m g0(7) by auto
  moreover have "RestartGame g = Return () g'"
    using r by (simp add: RestartGame_def g0_def)
  ultimately show ?thesis using d g0(1-5) by simp
qed

lemma Cell_in_range:
  assumes "well_formed g" and "Cell row column g = Inr i"
  shows "i < length (cells g)"
proof -
  from assms(2) have r: "row < rows g" and c: "column < columns g"
    and i: "i = row * columns g + column"
    by (simp_all add: Cell_def split: if_splits)
  have "i < Suc row * columns g" using c i by simp
  also have "\<dots> \<le> rows g * columns g" using r by (intro mult_le_mono1) simp
  finally show ?thesis using well_formed_length [OF assms(1)] by simp
qed

lemma OnModified_well_formed:
  assumes "well_formed g"
  shows "well_formed (game_of (OnModified i g))"
proof (cases "OnModified i g")
  case (Throw line g')
  from OnModified_cases(1) [OF this] assms Throw show ?thesis by simp
next
  case (Return v g')
  from OnModified_cases(2) [OF this]
  have g': "g' = g\<lparr>modifiedCellIndices := Dlist.insert i (modifiedCellIndices g)\<rparr>"
    and i: "i < length (cells g)" by simp_all
  have "well_formed g'"
  proof (rule well_formed_transfer [OF assms])
    fix k assume "k \<in> set (list_of_dlist (modifiedCellIndices g'))"
    with g' have "k = i \<or> k \<in> set (list_of_dlist (modifiedCellIndices g))" by simp
    with i well_formed_modified [OF assms] show "k < length (cells g)" by blast
  qed (simp_all add: g')
  with Return show ?thesis by simp
qed

lemma update_cell_well_formed:
  assumes "well_formed g"
  shows "well_formed (update_cell i f g)"
proof (rule well_formed_transfer [OF assms])
  fix k assume "k \<in> set (list_of_dlist (modifiedCellIndices (update_cell i f g)))"
  then have "k \<in> set (list_of_dlist (modifiedCellIndices g))" by simp
  then show "k < length (cells g)" by (rule well_formed_modified [OF assms])
qed simp_all

lemma SetLabel_well_formed:
  assumes "well_formed g"
  shows "well_formed (game_of (SetLabel i l g))"
  using assms
    OnModified_well_formed [OF update_cell_well_formed [OF assms, of i "\<lambda>c. c\<lparr>label := l\<rparr>"], of i]
  by (simp add: SetLabel_def)

theorem reachable_well_formed: "reachable g \<Longrightarrow> well_formed g"
proof (induction rule: reachable.induct)
  case (created r c b draws g)
  from NewGame_well_formed [of r c b draws CMinesweeperGame "Return () g"] created
  show ?case by (simp add: CreateGame_def)
next
  case (new_game g r c b draws res)
  from NewGame_well_formed [OF new_game(2)] new_game(3) show ?case by auto
next
  case (new_game0 g draws res)
  from new_game0(3) have "9 \<le> rows g" "rows g \<le> 24" "9 \<le> columns g" "columns g \<le> 30"
    "10 \<le> bombs g" "bombs g \<le> 93 * rows g * columns g div 100"
    unfolding well_formed_def by blast+
  from NewGame0_well_formed [OF new_game0(2) this] show ?case .
next
  case (restarted g)
  from RestartGame_Return [of g] obtain g' where
    r: "RestartGame g = Return () g'" and d: "rows g' = rows g" "columns g' = columns g" "bombs g' = bombs g"
    and c: "cells g' = map (\<lambda>c. c\<lparr>isOpened := False, label := MCL_None\<rparr>) (cells g)"
    and m: "set (list_of_dlist (modifiedCellIndices g')) = {..< length (cells g)}"
    by blast
  have "well_formed g'"
    by (rule well_formed_transfer [OF restarted(2)]) (simp_all add: d c m)
  with r show ?case by simp
next
  case (labelled g row column i l)
  from SetLabel_well_formed [OF labelled(3)] show ?case .
next
  case (opened g row column i pick res)
  from OnOpen_Active [OF opened(3)] have "opens_only g (game_of res)"
    by (auto simp: quiet_def lost_from_def)
  with opened(4) show ?case by (rule well_formed_opens_only)
next
  case (drained g)
  have "well_formed (g\<lparr>modifiedCellIndices := Dlist.empty\<rparr>)"
    by (rule well_formed_transfer [OF drained(2)]) simp_all
  then show ?case by (simp add: ModifiedCells_def)
qed

subsection \<open>Opening a mine\<close>

text \<open>
  C5.  If a call of \<^verbatim>\<open>Open()\<close> in a reachable game returns and a mine that was closed
  before the call is opened after it, then the call returned normally, the game is in
  the state \<^verbatim>\<open>MGS_Failure\<close> and every mine is opened.  The game at the return is the
  game as the \<^verbatim>\<open>open\<close> that hit the mine left it (\<open>open_cell n g1 = Return False\<close> of it),
  and before that \<^verbatim>\<open>open\<close> the call had opened cells without a mine only
  (\<open>quiet g g1\<close>): nothing was opened after the hit.  From then on \<^verbatim>\<open>Open()\<close> on any cell
  throws at the state check of line 266 and changes nothing.
\<close>

theorem Open_on_mine_ends_game:
  assumes "reachable g"
    and "Cell row column g = Inr i"
    and "OnOpen pick i g = Some res"
    and "j < length (cells g)" and "isBomb (cells g ! j)" and "\<not> isOpened (cells g ! j)"
    and "isOpened (cells (game_of res) ! j)"
  shows "res = Return () (game_of res)
    \<and> state (game_of res) = MGS_Failure
    \<and> (\<forall>k < length (cells (game_of res)).
          isBomb (cells (game_of res) ! k) \<longrightarrow> isOpened (cells (game_of res) ! k))
    \<and> (\<exists>g1 n. quiet g g1 \<and> state g1 = MGS_Active \<and> open_cell n g1 = Return False (game_of res))
    \<and> (\<forall>pick' k. OnOpen pick' k (game_of res) = Some (Throw 266 (game_of res)))"
proof -
  have "\<not> quiet g (game_of res)"
    using assms(4-7) by (auto simp: quiet_def no_new_mine_def)
  with OnOpen_Active [OF assms(3)] obtain g' where r: "res = Return () g'" and l: "lost_from g g'"
    by blast
  from l have "state g' = MGS_Failure" by (simp add: lost_from_def)
  then have "\<forall>pick' k. OnOpen pick' k g' = Some (Throw 266 g')" by (simp add: OnOpen_def)
  with r l show ?thesis unfolding lost_from_def by simp
qed

subsection \<open>The modified cells\<close>

lemma coordinates_of_grid:
  assumes "0 < c"
  shows "(\<lambda>i. (i div c, i mod c)) ` {..< r * c} = {..< r} \<times> {..< (c::nat)}"
proof (intro set_eqI iffI)
  fix p assume "p \<in> (\<lambda>i. (i div c, i mod c)) ` {..< r * c}"
  then obtain i where i: "i < r * c" and p: "p = (i div c, i mod c)" by auto
  from i have "i div c < r" by (simp add: less_mult_imp_div_less)
  with assms p show "p \<in> {..< r} \<times> {..< c}" by simp
next
  fix p assume "p \<in> {..< r} \<times> {..< c}"
  then obtain a b where p: "p = (a, b)" and a: "a < r" and b: "b < c" by auto
  have "a * c + b < Suc a * c" using b by simp
  also have "\<dots> \<le> r * c" using a by (intro mult_le_mono1) simp
  finally have "a * c + b < r * c" .
  moreover have "(a * c + b) div c = a" "(a * c + b) mod c = b" using b by simp_all
  ultimately show "p \<in> (\<lambda>i. (i div c, i mod c)) ` {..< r * c}"
    unfolding p by (intro image_eqI [where x = "a * c + b"]) simp_all
qed





subsection \<open>Restarting\<close>

text \<open>
  C8.  In a reachable game \<^verbatim>\<open>RestartGame()\<close> returns normally.  Afterwards every cell
  is the cell it was, closed and without label: its mine flag and its stored count are
  unchanged.  The state is \<^verbatim>\<open>MGS_Active\<close>, \<^verbatim>\<open>numberOfOpenedCells\<close> is 0, the dimensions
  and the number of mines are unchanged, the set of modified cells holds every index
  of the grid, and the next \<^verbatim>\<open>ModifiedCells()\<close> returns every position of the grid.
\<close>

theorem RestartGame_keeps_layout:
  assumes "reachable g"
  shows "RestartGame g = Return () (game_of (RestartGame g))
    \<and> cells (game_of (RestartGame g))
        = map (\<lambda>c. c\<lparr>isOpened := False, label := MCL_None\<rparr>) (cells g)
    \<and> map isBomb (cells (game_of (RestartGame g))) = map isBomb (cells g)
    \<and> map numberOfNeighborBombs (cells (game_of (RestartGame g)))
        = map numberOfNeighborBombs (cells g)
    \<and> list_all (\<lambda>c. \<not> isOpened c \<and> label c = MCL_None) (cells (game_of (RestartGame g)))
    \<and> state (game_of (RestartGame g)) = MGS_Active
    \<and> numberOfOpenedCells (game_of (RestartGame g)) = 0
    \<and> rows (game_of (RestartGame g)) = rows g
    \<and> columns (game_of (RestartGame g)) = columns g
    \<and> bombs (game_of (RestartGame g)) = bombs g
    \<and> set (list_of_dlist (modifiedCellIndices (game_of (RestartGame g)))) = {..< rows g * columns g}
    \<and> set (fst (ModifiedCells (game_of (RestartGame g)))) = {..< rows g} \<times> {..< columns g}"
proof -
  from assms have wf: "well_formed g" by (rule reachable_well_formed)
  have c: "0 < columns g" using well_formed_columns [OF wf] by simp
  from RestartGame_Return [of g] obtain g' where
    r: "RestartGame g = Return () g'" and s: "state g' = MGS_Active"
    and d: "rows g' = rows g" "columns g' = columns g" "bombs g' = bombs g"
    and n: "numberOfOpenedCells g' = 0"
    and cs: "cells g' = map (\<lambda>c. c\<lparr>isOpened := False, label := MCL_None\<rparr>) (cells g)"
    and m: "set (list_of_dlist (modifiedCellIndices g')) = {..< length (cells g)}"
    by blast
  have m': "set (list_of_dlist (modifiedCellIndices g')) = {..< rows g * columns g}"
    using m well_formed_length [OF wf] by simp
  have "set (fst (ModifiedCells g'))
      = (\<lambda>i. (i div columns g, i mod columns g)) ` {..< rows g * columns g}"
    by (simp add: ModifiedCells_def d m')
  also have "\<dots> = {..< rows g} \<times> {..< columns g}" using c by (rule coordinates_of_grid)
  finally have all: "set (fst (ModifiedCells g')) = {..< rows g} \<times> {..< columns g}" .
  have "map isBomb (cells g') = map isBomb (cells g)"
    "map numberOfNeighborBombs (cells g') = map numberOfNeighborBombs (cells g)"
    "list_all (\<lambda>c. \<not> isOpened c \<and> label c = MCL_None) (cells g')"
    unfolding cs by (simp_all add: o_def list_all_iff)
  with r s d n cs m' all show ?thesis by simp
qed

subsection \<open>A worklist that never empties\<close>

lemma cell_index_bound:
  assumes "row < r" and "col < c"
  shows "row * c + col < r * (c::nat)"
proof -
  have "row * c + col < Suc row * c" using assms(2) by simp
  also have "\<dots> \<le> r * c" using assms(1) by (intro mult_le_mono1) simp
  finally show ?thesis .
qed

lemma findNeighbors_in_range:
  assumes "well_formed g" and "i < length (cells g)"
  shows "\<exists>ns. findNeighbors i g = Inr ns \<and> (\<forall>n \<in> set ns. n < length (cells g))"
proof -
  define c where "c = columns g"
  define r where "r = rows g"
  define row where "row = i div c"
  define col where "col = i mod c"
  have c: "0 < c" using well_formed_columns [OF assms(1)] by (simp add: c_def)
  have len: "length (cells g) = r * c" using well_formed_length [OF assms(1)] by (simp add: r_def c_def)
  have i: "i = row * c + col" by (simp add: row_def col_def)
  have col: "col < c" using c by (simp add: col_def)
  have row: "row < r" using assms(2) len by (simp add: row_def less_mult_imp_div_less)
  have R: "i + 1 < r * c" if "col < c - 1"
  proof -
    from that have "col + 1 < c" by simp
    from cell_index_bound [OF row this] show ?thesis by (simp add: i)
  qed
  have B: "i + c < r * c" if "row < r - 1"
  proof -
    from that have "row + 1 < r" by simp
    from cell_index_bound [OF this col] show ?thesis by (simp add: i)
  qed
  have BR: "i + c + 1 < r * c" if "row < r - 1" "col < c - 1"
  proof -
    from that have "row + 1 < r" "col + 1 < c" by simp_all
    from cell_index_bound [OF this] show ?thesis by (simp add: i)
  qed
  have I: "i < r * c" using assms(2) len by simp
  show ?thesis
    using assms(2) R B BR I
    by (auto simp: findNeighbors_def Let_def len c_def [symmetric] r_def [symmetric]
        row_def [symmetric] col_def [symmetric])
qed

lemma keeps_labelled_refl [simp]: "keeps_labelled g g"
  by (simp add: keeps_labelled_def)

lemma keeps_labelled_trans:
  assumes "opens_only g g'" and "keeps_labelled g g'" and "keeps_labelled g' g''"
  shows "keeps_labelled g g''"
  unfolding keeps_labelled_def
proof (intro allI impI)
  fix k assume k: "k < length (cells g)" and o: "isOpened (cells g'' ! k)"
  from assms(1) k have k': "k < length (cells g')" and l: "label (cells g' ! k) = label (cells g ! k)"
    by (simp_all add: opens_only_def)
  from assms(3) k' o have "isOpened (cells g' ! k) \<or> label (cells g' ! k) = MCL_None"
    by (simp add: keeps_labelled_def)
  with assms(2) k l show "isOpened (cells g ! k) \<or> label (cells g ! k) = MCL_None"
    by (auto simp: keeps_labelled_def)
qed

lemma neighbours_opens_only:
  assumes "opens_only g g'"
  shows "neighbours i g' = neighbours i g"
proof -
  from assms have e: "rows g' = rows g" "columns g' = columns g" "length (cells g') = length (cells g)"
    by (simp_all add: opens_only_def)
  show ?thesis by (simp only: neighbours_def findNeighbors_def e)
qed

lemma open_cell_safe:
  assumes "state g = MGS_Active" and "n < length (cells g)" and "\<not> isBomb (cells g ! n)"
  shows "\<exists>g'. open_cell n g = Return True g' \<and> opens_only g g' \<and> state g' = MGS_Active
           \<and> keeps_labelled g g'"
proof (cases "\<not> isOpened (cells g ! n) \<and> label (cells g ! n) = MCL_None")
  case False
  then have "open_cell n g = Return True g" by (auto simp: open_cell_def)
  with assms(1) show ?thesis by simp
next
  case True
  obtain g1 where r1: "InternalOpen n g = Return () g1"
  proof (cases "InternalOpen n g")
    case (Return v g1)
    then show ?thesis using that by simp
  next
    case (Throw line g1)
    from InternalOpen_Throw [OF assms(1) Throw] assms(2) show ?thesis by simp
  qed
  from InternalOpen_Return [OF assms(1) r1]
  have o1: "opens_only g g1" and s1: "state g1 = MGS_Active"
    and c1: "\<forall>k < length (cells g). isOpened (cells g1 ! k) \<longleftrightarrow> isOpened (cells g ! k) \<or> k = n"
    by simp_all
  from o1 assms(2,3) have nb: "\<not> isBomb (cells g1 ! n)" by (simp add: opens_only_def)
  let ?g' = "g1\<lparr>numberOfOpenedCells := numberOfOpenedCells g1 + 1\<rparr>"
  have "open_cell n g = Return True ?g'" using True r1 nb by (simp add: open_cell_def)
  moreover have "keeps_labelled g ?g'" using c1 True by (auto simp: keeps_labelled_def)
  ultimately show ?thesis using o1 s1 by simp
qed

lemma waiting_kept:
  assumes "opens_only g g'" and "keeps_labelled g g'" and "waiting a g"
  shows "waiting a g'"
proof -
  from assms(3) have a: "a < length (cells g)" and c: "\<not> isOpened (cells g ! a)"
    and l: "label (cells g ! a) \<noteq> MCL_None" and z: "numberOfNeighborBombs (cells g ! a) = 0"
    by (simp_all add: waiting_def)
  from assms(2) a c l have "\<not> isOpened (cells g' ! a)" by (auto simp: keeps_labelled_def)
  with assms(1) a l z show ?thesis by (simp add: waiting_def opens_only_def)
qed

lemma openNeighbors_for_safe:
  assumes "state g = MGS_Active" and "\<forall>n \<in> set ns. n < length (cells g) \<and> \<not> isBomb (cells g ! n)"
  shows "\<exists>u' g'. openNeighbors_for ns u g = Return (True, u') g'
           \<and> opens_only g g' \<and> state g' = MGS_Active \<and> keeps_labelled g g'
           \<and> set u \<subseteq> set u'
           \<and> (\<forall>x \<in> set u'. x \<in> set u \<or> (x \<in> set ns \<and> numberOfNeighborBombs (cells g ! x) = 0))
           \<and> (\<forall>n \<in> set ns. waiting n g \<longrightarrow> n \<in> set u')"
  using assms
proof (induction ns arbitrary: u g)
  case Nil
  then show ?case by simp
next
  case (Cons n ns)
  from Cons.prems(2) have rest: "\<forall>m \<in> set ns. m < length (cells g) \<and> \<not> isBomb (cells g ! m)"
    and n: "n < length (cells g)" "\<not> isBomb (cells g ! n)" by simp_all
  show ?case
  proof (cases "isOpened (cells g ! n)")
    case True
    from Cons.IH [OF Cons.prems(1) rest, of u] obtain u' g' where
      r: "openNeighbors_for ns u g = Return (True, u') g'"
      and p: "opens_only g g'" "state g' = MGS_Active" "keeps_labelled g g'" "set u \<subseteq> set u'"
      and e: "\<forall>x \<in> set u'. x \<in> set u \<or> (x \<in> set ns \<and> numberOfNeighborBombs (cells g ! x) = 0)"
      and w: "\<forall>m \<in> set ns. waiting m g \<longrightarrow> m \<in> set u'"
      by blast
    have "openNeighbors_for (n # ns) u g = Return (True, u') g'" using True r by simp
    moreover have "\<forall>x \<in> set u'. x \<in> set u
        \<or> (x \<in> set (n # ns) \<and> numberOfNeighborBombs (cells g ! x) = 0)"
      using e by auto
    moreover have "\<forall>m \<in> set (n # ns). waiting m g \<longrightarrow> m \<in> set u'"
      using w True by (auto simp: waiting_def)
    ultimately show ?thesis using p by blast
  next
    case False
    from open_cell_safe [OF Cons.prems(1) n] obtain g1 where
      o: "open_cell n g = Return True g1" and o1: "opens_only g g1"
      and s1: "state g1 = MGS_Active" and k1: "keeps_labelled g g1"
      by blast
    from o1 have len: "length (cells g1) = length (cells g)"
      and same: "\<forall>k < length (cells g). isBomb (cells g1 ! k) = isBomb (cells g ! k)
          \<and> numberOfNeighborBombs (cells g1 ! k) = numberOfNeighborBombs (cells g ! k)"
      by (simp_all add: opens_only_def)
    define u1 where "u1 = (if numberOfNeighborBombs (cells g1 ! n) = 0 then List.insert n u else u)"
    have rest1: "\<forall>m \<in> set ns. m < length (cells g1) \<and> \<not> isBomb (cells g1 ! m)"
      using rest len same by simp
    from Cons.IH [OF s1 rest1, of u1] obtain u' g' where
      r: "openNeighbors_for ns u1 g1 = Return (True, u') g'"
      and p: "opens_only g1 g'" "state g' = MGS_Active" "keeps_labelled g1 g'" "set u1 \<subseteq> set u'"
      and e: "\<forall>x \<in> set u'. x \<in> set u1 \<or> (x \<in> set ns \<and> numberOfNeighborBombs (cells g1 ! x) = 0)"
      and w: "\<forall>m \<in> set ns. waiting m g1 \<longrightarrow> m \<in> set u'"
      by blast
    have "openNeighbors_for (n # ns) u g = Return (True, u') g'"
      using False o r by (auto simp: u1_def split: if_splits)
    moreover have "opens_only g g'" using o1 p(1) by (rule opens_only_trans)
    moreover have "keeps_labelled g g'" using o1 k1 p(3) by (rule keeps_labelled_trans)
    moreover have "set u \<subseteq> set u'" using p(4) by (auto simp: u1_def split: if_splits)
    moreover have "\<forall>x \<in> set u'. x \<in> set u
        \<or> (x \<in> set (n # ns) \<and> numberOfNeighborBombs (cells g ! x) = 0)"
    proof
      fix x assume "x \<in> set u'"
      with e have "x \<in> set u1 \<or> (x \<in> set ns \<and> numberOfNeighborBombs (cells g1 ! x) = 0)" by simp
      then show "x \<in> set u \<or> (x \<in> set (n # ns) \<and> numberOfNeighborBombs (cells g ! x) = 0)"
        using same n(1) rest by (auto simp: u1_def split: if_splits)
    qed
    moreover have "\<forall>m \<in> set (n # ns). waiting m g \<longrightarrow> m \<in> set u'"
    proof (intro ballI impI)
      fix m assume m: "m \<in> set (n # ns)" and wm: "waiting m g"
      show "m \<in> set u'"
      proof (cases "m = n")
        case True
        with wm same n(1) have "numberOfNeighborBombs (cells g1 ! n) = 0" by (simp add: waiting_def)
        then have "n \<in> set u1" by (simp add: u1_def)
        with p(4) True show ?thesis by auto
      next
        case False
        with m have "m \<in> set ns" by simp
        moreover have "waiting m g1" using o1 k1 wm by (rule waiting_kept)
        ultimately show ?thesis using w by simp
      qed
    qed
    ultimately show ?thesis using p(2) by blast
  qed
qed

lemma zero_means_safe_opens_only:
  assumes "opens_only g g'" and "zero_means_safe g"
  shows "zero_means_safe g'"
proof -
  from assms(1) have len: "length (cells g') = length (cells g)"
    and same: "\<And>k. k < length (cells g) \<Longrightarrow> isBomb (cells g' ! k) = isBomb (cells g ! k)
          \<and> numberOfNeighborBombs (cells g' ! k) = numberOfNeighborBombs (cells g ! k)"
    by (simp_all add: opens_only_def)
  have nb: "\<And>i. neighbours i g' = neighbours i g" using assms(1) by (rule neighbours_opens_only)
  show ?thesis
    unfolding zero_means_safe_def list_all_iff nb len
  proof (intro ballI impI)
    fix i n
    assume i: "i \<in> set [0 ..< length (cells g)]"
      and z: "numberOfNeighborBombs (cells g' ! i) = 0" and n: "n \<in> set (neighbours i g)"
    from i have i': "i < length (cells g)" by simp
    with z same have "numberOfNeighborBombs (cells g ! i) = 0" by simp
    with assms(2) i n have "n < length (cells g) \<and> \<not> isBomb (cells g ! n)"
      unfolding zero_means_safe_def list_all_iff by blast
    with same show "n < length (cells g) \<and> \<not> isBomb (cells g' ! n)" by simp
  qed
qed

lemma zero_means_safe_neighbours:
  assumes "zero_means_safe g" and "x < length (cells g)"
    and "numberOfNeighborBombs (cells g ! x) = 0"
  shows "findNeighbors x g = Inr (neighbours x g)
         \<and> (\<forall>n \<in> set (neighbours x g). n < length (cells g) \<and> \<not> isBomb (cells g ! n))"
proof -
  from assms(2) have "findNeighbors x g = Inr (neighbours x g)"
    by (simp add: neighbours_def findNeighbors_def Let_def)
  moreover from assms have "\<forall>n \<in> set (neighbours x g). n < length (cells g) \<and> \<not> isBomb (cells g ! n)"
    unfolding zero_means_safe_def list_all_iff by simp
  ultimately show ?thesis by simp
qed

lemma stuck_step:
  assumes "stuck a b u g" and "current \<in> set u"
  shows "\<exists>u' g'. openNeighbors_for (neighbours current g) (removeAll current u) g
                   = Return (True, u') g'
           \<and> findNeighbors current g = Inr (neighbours current g)
           \<and> stuck a b u' g'"
proof -
  from assms(1) have s: "state g = MGS_Active" and z: "zero_means_safe g"
    and wa: "waiting a g" and wb: "waiting b g"
    and ab: "a \<in> set (neighbours b g)" "b \<in> set (neighbours a g)"
    and us: "\<forall>x \<in> set u. x < length (cells g) \<and> numberOfNeighborBombs (cells g ! x) = 0"
    and ex: "\<exists>x \<in> set u. a \<in> set (neighbours x g) \<or> b \<in> set (neighbours x g)"
    unfolding stuck_def list_all_iff list_ex_iff by blast+
  let ?ns = "neighbours current g"
  from us assms(2) have cur: "current < length (cells g)"
    "numberOfNeighborBombs (cells g ! current) = 0" by simp_all
  from zero_means_safe_neighbours [OF z cur]
  have f: "findNeighbors current g = Inr ?ns"
    and safe: "\<forall>n \<in> set ?ns. n < length (cells g) \<and> \<not> isBomb (cells g ! n)" by simp_all
  from openNeighbors_for_safe [OF s safe, of "removeAll current u"] obtain u' g' where
    r: "openNeighbors_for ?ns (removeAll current u) g = Return (True, u') g'"
    and o: "opens_only g g'" and s': "state g' = MGS_Active" and k: "keeps_labelled g g'"
    and sub: "set (removeAll current u) \<subseteq> set u'"
    and e: "\<forall>x \<in> set u'. x \<in> set (removeAll current u)
              \<or> (x \<in> set ?ns \<and> numberOfNeighborBombs (cells g ! x) = 0)"
    and w: "\<forall>n \<in> set ?ns. waiting n g \<longrightarrow> n \<in> set u'"
    by blast
  have nb: "\<And>i. neighbours i g' = neighbours i g" using o by (rule neighbours_opens_only)
  from o have len: "length (cells g') = length (cells g)"
    and same: "\<And>k. k < length (cells g) \<Longrightarrow>
          numberOfNeighborBombs (cells g' ! k) = numberOfNeighborBombs (cells g ! k)"
    by (simp_all add: opens_only_def)
  have us': "\<forall>x \<in> set u'. x < length (cells g') \<and> numberOfNeighborBombs (cells g' ! x) = 0"
  proof
    fix x assume "x \<in> set u'"
    with e have "x \<in> set u \<or> (x \<in> set ?ns \<and> numberOfNeighborBombs (cells g ! x) = 0)" by auto
    with us safe have "x < length (cells g) \<and> numberOfNeighborBombs (cells g ! x) = 0" by auto
    with same len show "x < length (cells g') \<and> numberOfNeighborBombs (cells g' ! x) = 0" by simp
  qed
  have ex': "\<exists>x \<in> set u'. a \<in> set (neighbours x g) \<or> b \<in> set (neighbours x g)"
  proof -
    from ex obtain x where x: "x \<in> set u"
      and xn: "a \<in> set (neighbours x g) \<or> b \<in> set (neighbours x g)" by blast
    show ?thesis
    proof (cases "x = current")
      case False
      with x sub have "x \<in> set u'" by auto
      with xn show ?thesis by blast
    next
      case True
      from xn show ?thesis
      proof
        assume "a \<in> set (neighbours x g)"
        with True w wa have "a \<in> set u'" by simp
        with ab(2) show ?thesis by blast
      next
        assume "b \<in> set (neighbours x g)"
        with True w wb have "b \<in> set u'" by simp
        with ab(1) show ?thesis by blast
      qed
    qed
  qed
  have "stuck a b u' g'"
    unfolding stuck_def list_all_iff list_ex_iff nb
    using s' zero_means_safe_opens_only [OF o z] waiting_kept [OF o k wa] waiting_kept [OF o k wb]
      ab us' ex'
    by (intro conjI)
  with r f show ?thesis by blast
qed

lemma openNeighbors_while_stuck:
  assumes "stuck a b u g"
  shows "openNeighbors_while pick u g = None"
proof (cases "openNeighbors_while pick u g")
  case None
  then show ?thesis .
next
  case (Some res)
  have "\<not> stuck a b u g"
  proof (rule openNeighbors_while.raw_induct
      [where P = "\<lambda>pick u g res. \<not> stuck a b u g", OF _ Some], goal_cases)
    case (1 loop pick u g res)
    show ?case
    proof
      assume st: "stuck a b u g"
      then have "u \<noteq> []" by (auto simp: stuck_def)
      define current where "current = u ! (pick u mod length u)"
      have "current \<in> set u" using \<open>u \<noteq> []\<close> by (simp add: current_def)
      from stuck_step [OF st this] obtain u' g' where
        r: "openNeighbors_for (neighbours current g) (removeAll current u) g = Return (True, u') g'"
        and f: "findNeighbors current g = Inr (neighbours current g)"
        and st': "stuck a b u' g'" by blast
      from 1(2) \<open>u \<noteq> []\<close> r f have "loop pick u' g' = Some res"
        by (simp add: Let_def current_def [symmetric])
      from 1(1) [OF this] st' show False by simp
    qed
  qed
  with assms show ?thesis by simp
qed

subsection \<open>The theorems at concrete games\<close>

theorem Open_on_mine_ends_game_witness:
  "reachable boardB \<and> Cell 0 2 boardB = Inr 2
   \<and> OnOpen pick_first 2 boardB = Some (Return () boardB_lost)
   \<and> 2 < length (cells boardB) \<and> isBomb (cells boardB ! 2) \<and> \<not> isOpened (cells boardB ! 2)
   \<and> isOpened (cells boardB_lost ! 2)
   \<and> state boardB_lost = MGS_Failure
   \<and> OnOpen pick_first 0 boardB_lost = Some (Throw 266 boardB_lost)"
proof -
  have o: "OnOpen pick_first 2 boardB = Some (Return () boardB_lost)"
    by (rule OnOpen_boardB_mine)
  have 4: "2 < length (cells boardB)" by code_simp
  have 5: "isBomb (cells boardB ! 2)" by code_simp
  have 6: "\<not> isOpened (cells boardB ! 2)" by code_simp
  have 7: "isOpened (cells (game_of (Return () boardB_lost)) ! 2)" by code_simp
  from Open_on_mine_ends_game [OF reachable_boardB Cell_boardB o 4 5 6 7]
  have "state boardB_lost = MGS_Failure"
    and "OnOpen pick_first 0 boardB_lost = Some (Throw 266 boardB_lost)"
    unfolding game_of.simps by blast+
  with reachable_boardB Cell_boardB o 4 5 6 7 show ?thesis by simp
qed


theorem RestartGame_keeps_layout_witness:
  "reachable boardB_lost
   \<and> RestartGame boardB_lost = Return () (game_of (RestartGame boardB_lost))
   \<and> cells (game_of (RestartGame boardB_lost)) = cells boardB
   \<and> state (game_of (RestartGame boardB_lost)) = MGS_Active
   \<and> numberOfOpenedCells (game_of (RestartGame boardB_lost)) = 0
   \<and> length (fst (ModifiedCells (game_of (RestartGame boardB_lost)))) = 81"
proof -
  have e: "cells (game_of (RestartGame boardB_lost)) = cells boardB" by code_simp
  have l: "length (fst (ModifiedCells (game_of (RestartGame boardB_lost)))) = 81" by code_simp
  from RestartGame_keeps_layout [OF reachable_boardB_lost]
  have "RestartGame boardB_lost = Return () (game_of (RestartGame boardB_lost))"
    and "state (game_of (RestartGame boardB_lost)) = MGS_Active"
    and "numberOfOpenedCells (game_of (RestartGame boardB_lost)) = 0"
    by blast+
  with reachable_boardB_lost e l show ?thesis by simp
qed

subsection \<open>One round of the worklist\<close>

lemma openNeighbors_while_Nil: "openNeighbors_while pick [] g = Some (Return () g)"
  by (subst openNeighbors_while.simps) simp

lemma openNeighbors_once:
  assumes "findNeighbors i g = Inr ns" and "openNeighbors_for ns [] g = Return (True, []) g'"
  shows "openNeighbors pick i g = Some (Return () g')"
  unfolding openNeighbors_def
  by (subst openNeighbors_while.simps) (simp add: assms openNeighbors_while_Nil)

lemma OnOpen_closed_flood_once:
  assumes "state g = MGS_Active" and "i < length (cells g)" and "\<not> isOpened (cells g ! i)"
    and "open_cell i g = Return True g1" and "hasSuccess g1 = Return False g1"
    and "numberOfNeighborBombs (cells g1 ! i) = 0"
    and "findNeighbors i g1 = Inr ns" and "openNeighbors_for ns [] g1 = Return (True, []) g'"
  shows "OnOpen pick i g = Some (Return () g')"
  using assms(1-6) openNeighbors_once [OF assms(7,8)] by (simp add: OnOpen_def)

lemma OnOpen_closed_won:
  assumes "state g = MGS_Active" and "i < length (cells g)" and "\<not> isOpened (cells g ! i)"
    and "open_cell i g = Return True g1" and "hasSuccess g1 = Return True g'"
  shows "OnOpen pick i g = Some (Return () g')"
  using assms by (simp add: OnOpen_def)

lemma OnOpen_closed_stuck:
  assumes "state g = MGS_Active" and "i < length (cells g)" and "\<not> isOpened (cells g ! i)"
    and "open_cell i g = Return True g1" and "hasSuccess g1 = Return False g1"
    and "numberOfNeighborBombs (cells g1 ! i) = 0"
    and "stuck a b [i] g1"
  shows "OnOpen pick i g = None"
  using assms(1-6) openNeighbors_while_stuck [OF assms(7)]
  by (simp add: OnOpen_def openNeighbors_def)

subsection \<open>Games reached by opening cells\<close>

lemma Cell_of_index:
  assumes "well_formed g" and "i < length (cells g)"
  shows "Cell (i div columns g) (i mod columns g) g = Inr i"
proof -
  have c: "0 < columns g" using well_formed_columns [OF assms(1)] by simp
  from assms(2) have "i < rows g * columns g" using well_formed_length [OF assms(1)] by simp
  then have "i div columns g < rows g" by (simp add: less_mult_imp_div_less)
  with c show ?thesis by (simp add: Cell_def)
qed

lemma open_cells_reachable:
  assumes "reachable g" and "\<forall>i \<in> set cs. i < length (cells g)"
    and "open_cells pick cs g = Some res"
  shows "reachable (game_of res)"
  using assms
proof (induction cs arbitrary: g)
  case Nil
  then show ?case by auto
next
  case (Cons i cs)
  from Cons.prems(1) have wf: "well_formed g" by (rule reachable_well_formed)
  from Cons.prems(2) have i: "i < length (cells g)" by simp
  note cell = Cell_of_index [OF wf i]
  show ?case
  proof (cases "OnOpen pick i g")
    case None
    with Cons.prems(3) show ?thesis by simp
  next
    case (Some r)
    note step = reachable.opened [OF Cons.prems(1) cell Some]
    show ?thesis
    proof (cases r)
      case (Throw line g')
      with Some Cons.prems(3) step show ?thesis by auto
    next
      case (Return v g')
      with step have r': "reachable g'" by simp
      from OnOpen_Active [OF Some] Return have "opens_only g g'"
        by (auto simp: quiet_def lost_from_def)
      then have "length (cells g') = length (cells g)" by (simp add: opens_only_def)
      with Cons.prems(2) have "\<forall>k \<in> set cs. k < length (cells g')" by simp
      moreover from Some Return Cons.prems(3) have "open_cells pick cs g' = Some res" by simp
      ultimately show ?thesis using Cons.IH [OF r'] by blast
    qed
  qed
qed

lemma reachable_boardB4: "reachable boardB4"
proof -
  have 1: "\<forall>i \<in> set [6, 3, 11, 19]. i < length (cells boardB)" by code_simp
  have 2: "open_cells pick_first [6, 3, 11, 19] boardB = Some (Return () boardB4)" by code_simp
  from open_cells_reachable [OF reachable_boardB 1 2] show ?thesis by simp
qed

lemma reachable_boardA6: "reachable boardA6"
proof -
  have 1: "\<forall>i \<in> set [4, 11, 19, 40, 41, 42]. i < length (cells boardA)" by code_simp
  have 2: "open_cells pick_first [4, 11, 19, 40, 41, 42] boardA = Some (Return () boardA6)"
    by code_simp
  from open_cells_reachable [OF reachable_boardA 1 2] show ?thesis by simp
qed

lemma reachable_boardB_q: "reachable boardB_q"
proof -
  have 1: "Cell 0 0 boardB = Inr 0" by code_simp
  have 2: "SetLabel 0 MCL_Question boardB = Return () boardB_q" by code_simp
  from reachable.labelled [OF reachable_boardB 1, of MCL_Question] 2 show ?thesis by simp
qed

lemma reachable_boardB_trap: "reachable boardB_trap"
proof -
  have 1: "Cell 1 6 boardB = Inr 15" by code_simp
  have 2: "Cell 2 6 (game_of (SetLabel 15 MCL_Question boardB)) = Inr 24" by code_simp
  have 3: "SetLabel 24 MCL_Question (game_of (SetLabel 15 MCL_Question boardB))
      = Return () boardB_trap" by code_simp
  from reachable.labelled [OF reachable.labelled [OF reachable_boardB 1, of MCL_Question] 2,
      of MCL_Question] 3
  show ?thesis by simp
qed

subsection \<open>The worklist loop\<close>

text \<open>
  C2.  The cells 15 and 24 of \<open>boardB_trap\<close> are neighbours, both store the count zero,
  and both carry the label \<^verbatim>\<open>MCL_Question\<close>; the cell 6 is closed, has no label, stores
  the count zero and is next to 15.  \<^verbatim>\<open>Open()\<close> on the cell 6 does not return, whatever
  the order in which the worklist hands out its elements: \<^verbatim>\<open>open\<close> leaves a labelled
  cell closed and reports success, the loop puts the cell on the worklist because its
  count is zero, and 15 and 24 put each other back for ever.
\<close>

theorem Open_next_to_labelled_cells_never_returns:
  "reachable boardB_trap \<and> state boardB_trap = MGS_Active \<and> Cell 0 6 boardB_trap = Inr 6
   \<and> OnOpen pick 6 boardB_trap = None"
proof -
  have 1: "state boardB_trap = MGS_Active" by code_simp
  have 2: "6 < length (cells boardB_trap)" by code_simp
  have 3: "\<not> isOpened (cells boardB_trap ! 6)" by code_simp
  have 4: "open_cell 6 boardB_trap = Return True boardB_trap1" by code_simp
  have 5: "hasSuccess boardB_trap1 = Return False boardB_trap1" by code_simp
  have 6: "numberOfNeighborBombs (cells boardB_trap1 ! 6) = 0" by code_simp
  have 7: "stuck 15 24 [6] boardB_trap1" by code_simp
  have 8: "Cell 0 6 boardB_trap = Inr 6" by code_simp
  from OnOpen_closed_stuck [OF 1 2 3 4 5 6 7] reachable_boardB_trap 1 8 show ?thesis by simp
qed

subsection \<open>Opening a labelled cell\<close>

text \<open>
  C3.  The cell 0 of \<open>boardB_q\<close> is closed and carries the label \<^verbatim>\<open>MCL_Question\<close>; no
  cell of the game is opened.  \<^verbatim>\<open>Open()\<close> on the cell 0 leaves that cell closed and opens
  its neighbours 1, 9 and 10: \<^verbatim>\<open>open\<close> reports success for the labelled cell, and
  \<^verbatim>\<open>OnOpen\<close> goes on to \<^verbatim>\<open>openNeighbors\<close> because the stored count of the cell is zero.
  \<^verbatim>\<open>numberOfOpenedCells\<close> goes from 0 to 3 and the set of modified cells gains 1, 9
  and 10.
\<close>

theorem Open_on_labelled_cell_opens_neighbours:
  "reachable boardB_q \<and> state boardB_q = MGS_Active \<and> Cell 0 0 boardB_q = Inr 0
   \<and> \<not> isOpened (cells boardB_q ! 0) \<and> label (cells boardB_q ! 0) = MCL_Question
   \<and> OnOpen pick 0 boardB_q = Some (Return () boardB_q1)
   \<and> filter (\<lambda>k. isOpened (cells boardB_q ! k)) [0 ..< 81] = []
   \<and> filter (\<lambda>k. isOpened (cells boardB_q1 ! k)) [0 ..< 81] = [1, 9, 10]
   \<and> numberOfOpenedCells boardB_q = 0 \<and> numberOfOpenedCells boardB_q1 = 3
   \<and> list_of_dlist (modifiedCellIndices boardB_q) = [0]
   \<and> list_of_dlist (modifiedCellIndices boardB_q1) = [10, 9, 1, 0]"
proof -
  have 1: "state boardB_q = MGS_Active" by code_simp
  have 2: "0 < length (cells boardB_q)" by code_simp
  have 3: "\<not> isOpened (cells boardB_q ! 0)" by code_simp
  have 4: "open_cell 0 boardB_q = Return True boardB_q" by code_simp
  have 5: "hasSuccess boardB_q = Return False boardB_q" by code_simp
  have 6: "numberOfNeighborBombs (cells boardB_q ! 0) = 0" by code_simp
  have 7: "findNeighbors 0 boardB_q = Inr [1, 9, 10]" by code_simp
  have 8: "openNeighbors_for [1, 9, 10] [] boardB_q = Return (True, []) boardB_q1" by code_simp
  have 9: "Cell 0 0 boardB_q = Inr 0 \<and> label (cells boardB_q ! 0) = MCL_Question
      \<and> filter (\<lambda>k. isOpened (cells boardB_q ! k)) [0 ..< 81] = []
      \<and> filter (\<lambda>k. isOpened (cells boardB_q1 ! k)) [0 ..< 81] = [1, 9, 10]
      \<and> numberOfOpenedCells boardB_q = 0 \<and> numberOfOpenedCells boardB_q1 = 3
      \<and> list_of_dlist (modifiedCellIndices boardB_q) = [0]
      \<and> list_of_dlist (modifiedCellIndices boardB_q1) = [10, 9, 1, 0]" by code_simp
  from OnOpen_closed_flood_once [OF 1 2 3 4 5 6 7 8] reachable_boardB_q 1 3 9
  show ?thesis by simp
qed

subsection \<open>Winning\<close>

text \<open>
  C4.  In \<open>boardB4\<close> the game is active and 67 of the 71 cells without a mine are
  opened.  \<^verbatim>\<open>Open()\<close> on the cell 0 opens it and, its count being zero, its neighbours
  1, 9 and 10 through \<^verbatim>\<open>openNeighbors\<close>.  When the call returns
  \<^verbatim>\<open>numberOfOpenedCells\<close> is 71, which is \<^verbatim>\<open>cells.size() - bombs\<close>, every cell without a
  mine is opened, and the state is still \<^verbatim>\<open>MGS_Active\<close>: \<^verbatim>\<open>hasSuccess\<close> ran once, after
  the cell 0 alone was opened.
\<close>

theorem flood_completes_game_without_success:
  "reachable boardB4 \<and> state boardB4 = MGS_Active \<and> numberOfOpenedCells boardB4 = 67
   \<and> Cell 0 0 boardB4 = Inr 0
   \<and> OnOpen pick 0 boardB4 = Some (Return () boardB5)
   \<and> numberOfOpenedCells boardB5 = 71
   \<and> length (cells boardB5) - bombs boardB5 = 71
   \<and> length (filter isBomb (cells boardB5)) = bombs boardB5
   \<and> list_all (\<lambda>c. isBomb c \<or> isOpened c) (cells boardB5)
   \<and> state boardB5 = MGS_Active"
proof -
  let ?g1 = "game_of (open_cell 0 boardB4)"
  have 1: "state boardB4 = MGS_Active" by code_simp
  have 2: "0 < length (cells boardB4)" by code_simp
  have 3: "\<not> isOpened (cells boardB4 ! 0)" by code_simp
  have 4: "open_cell 0 boardB4 = Return True ?g1" by code_simp
  have 5: "hasSuccess ?g1 = Return False ?g1" by code_simp
  have 6: "numberOfNeighborBombs (cells ?g1 ! 0) = 0" by code_simp
  have 7: "findNeighbors 0 ?g1 = Inr [1, 9, 10]" by code_simp
  have 8: "openNeighbors_for [1, 9, 10] [] ?g1 = Return (True, []) boardB5" by code_simp
  have 9: "numberOfOpenedCells boardB4 = 67 \<and> Cell 0 0 boardB4 = Inr 0
      \<and> numberOfOpenedCells boardB5 = 71
      \<and> length (cells boardB5) - bombs boardB5 = 71
      \<and> length (filter isBomb (cells boardB5)) = bombs boardB5
      \<and> list_all (\<lambda>c. isBomb c \<or> isOpened c) (cells boardB5)
      \<and> state boardB5 = MGS_Active" by code_simp
  from OnOpen_closed_flood_once [OF 1 2 3 4 5 6 7 8] reachable_boardB4 1 9
  show ?thesis by simp
qed

subsection \<open>Flood fill\<close>

text \<open>
  C6.  In \<open>boardA6\<close> the game is active; the cell 0 is closed, has no label, is no mine
  and stores the count zero; its neighbours 1, 9 and 10 are closed, have no label and
  are no mines.  \<^verbatim>\<open>Open()\<close> on the cell 0 opens that cell and nothing else: the 71st
  opened cell makes \<^verbatim>\<open>hasSuccess\<close> compare equal with \<^verbatim>\<open>cells.size() - bombs\<close>, the state
  becomes \<^verbatim>\<open>MGS_Success\<close> and \<^verbatim>\<open>openNeighbors\<close> is not called.  The grid of \<open>boardA\<close> has
  7 mines and 74 cells without one, while \<^verbatim>\<open>bombs\<close> is 10.
\<close>

theorem Open_zero_cell_wins_without_flood:
  "reachable boardA6 \<and> state boardA6 = MGS_Active \<and> Cell 0 0 boardA6 = Inr 0
   \<and> \<not> isOpened (cells boardA6 ! 0) \<and> label (cells boardA6 ! 0) = MCL_None
   \<and> \<not> isBomb (cells boardA6 ! 0) \<and> numberOfNeighborBombs (cells boardA6 ! 0) = 0
   \<and> findNeighbors 0 boardA6 = Inr [1, 9, 10]
   \<and> list_all (\<lambda>k. \<not> isOpened (cells boardA6 ! k) \<and> label (cells boardA6 ! k) = MCL_None
                   \<and> \<not> isBomb (cells boardA6 ! k)) [1, 9, 10]
   \<and> OnOpen pick 0 boardA6 = Some (Return () boardA7)
   \<and> state boardA7 = MGS_Success
   \<and> filter (\<lambda>k. isOpened (cells boardA7 ! k) \<and> \<not> isOpened (cells boardA6 ! k)) [0 ..< 81] = [0]"
proof -
  let ?g1 = "game_of (open_cell 0 boardA6)"
  have 1: "state boardA6 = MGS_Active" by code_simp
  have 2: "0 < length (cells boardA6)" by code_simp
  have 3: "\<not> isOpened (cells boardA6 ! 0)" by code_simp
  have 4: "open_cell 0 boardA6 = Return True ?g1" by code_simp
  have 5: "hasSuccess ?g1 = Return True boardA7" by code_simp
  have 6: "Cell 0 0 boardA6 = Inr 0
      \<and> label (cells boardA6 ! 0) = MCL_None
      \<and> \<not> isBomb (cells boardA6 ! 0) \<and> numberOfNeighborBombs (cells boardA6 ! 0) = 0
      \<and> findNeighbors 0 boardA6 = Inr [1, 9, 10]
      \<and> list_all (\<lambda>k. \<not> isOpened (cells boardA6 ! k) \<and> label (cells boardA6 ! k) = MCL_None
                   \<and> \<not> isBomb (cells boardA6 ! k)) [1, 9, 10]
      \<and> state boardA7 = MGS_Success
      \<and> filter (\<lambda>k. isOpened (cells boardA7 ! k) \<and> \<not> isOpened (cells boardA6 ! k)) [0 ..< 81] = [0]"
    by code_simp
  from OnOpen_closed_won [OF 1 2 3 4 5] reachable_boardA6 1 3 6
  show ?thesis by simp
qed

subsection \<open>Mine planting\<close>

text \<open>
  C1.  \<^verbatim>\<open>NewGame( 9, 9, 10 )\<close> with the draws 2, 18, 20, 42, 41, 40, 39, 6, 78, 72 returns
  a grid of 81 cells of which 7 are mines, not 10: planting 41 calls
  \<^verbatim>\<open>SetNumberOfNeighborBombs\<close> on its neighbour 42, which clears the mine flag of 42, and
  so on for 40 and 39.  The cell 41 is no mine, none of its neighbours is a mine, and
  its stored count is 1.
\<close>

theorem NewGame_plants_fewer_mines:
  "CreateGame 9 9 10 drawsA = Some (Return () boardA)
   \<and> length (cells boardA) = 81
   \<and> length (filter isBomb (cells boardA)) = 7
   \<and> \<not> isBomb (cells boardA ! 41)
   \<and> numberOfNeighborBombs (cells boardA ! 41) = 1
   \<and> map_sum id (filter (\<lambda>n. isBomb (cells boardA ! n))) (findNeighbors 41 boardA) = Inr []"
proof -
  have "length (cells boardA) = 81" by code_simp
  moreover have "length (filter isBomb (cells boardA)) = 7" by code_simp
  moreover have "\<not> isBomb (cells boardA ! 41)" by code_simp
  moreover have "numberOfNeighborBombs (cells boardA ! 41) = 1" by code_simp
  moreover have "map_sum id (filter (\<lambda>n. isBomb (cells boardA ! n))) (findNeighbors 41 boardA)
      = Inr []" by code_simp
  ultimately show ?thesis using CreateGame_boardA by simp
qed

subsection \<open>The queries of a cell\<close>

text \<open>
  C9, as the code has it.  \<^verbatim>\<open>NumberOfNeighborBombs()\<close> asks the public \<^verbatim>\<open>IsBomb()\<close>,
  whose own check rejects a closed cell (line 112), before it rejects a mine (line 118).
  The call fails for every closed cell, mine or not, and for every opened mine; it
  returns the stored count for an opened cell that is no mine.
\<close>

theorem NumberOfNeighborBombs_guards:
  "NumberOfNeighborBombs c =
     (if \<not> isOpened c then Inl 112
      else if isBomb c then Inl 118
      else Inr (numberOfNeighborBombs c))"
  by (simp add: NumberOfNeighborBombs_def IsBomb_def)

text \<open>
  C9 as stated fails: the cell 1 of \<open>boardB\<close> is closed, is no mine and stores the
  count 1, and the query is rejected at line 112 instead of returning 1.
\<close>

theorem NumberOfNeighborBombs_closed_counterexample:
  "\<not> isOpened (cells boardB ! 1) \<and> \<not> isBomb (cells boardB ! 1)
   \<and> numberOfNeighborBombs (cells boardB ! 1) = 1
   \<and> NumberOfNeighborBombs (cells boardB ! 1) = Inl 112
   \<and> NumberOfNeighborBombs (cells boardB ! 1) \<noteq> Inr 1"
  by code_simp

subsection \<open>Labels after the end of the game\<close>

text \<open>
  C10.  When the game is not active (it is lost or won), \<^verbatim>\<open>SetLabel\<close> with a new label
  on a closed cell stores the label and then throws at the state check of
  \<^verbatim>\<open>OnModified\<close> (line 286): the game the exception leaves behind differs from the
  game before in the label of that cell only, and the index is not in the set of
  modified cells unless it was there before.
\<close>

theorem SetLabel_after_game_over:
  assumes "state g = MGS_Failure \<or> state g = MGS_Success"
    and "i < length (cells g)"
    and "\<not> isOpened (cells g ! i)"
    and "label (cells g ! i) \<noteq> newLabel"
  shows "SetLabel i newLabel g =
           Throw 286 (g\<lparr>cells := (cells g)[i := (cells g ! i)\<lparr>label := newLabel\<rparr>]\<rparr>)
         \<and> label (cells (game_of (SetLabel i newLabel g)) ! i) = newLabel
         \<and> modifiedCellIndices (game_of (SetLabel i newLabel g)) = modifiedCellIndices g"
  using assms by (auto simp: SetLabel_def OnModified_def update_cell_def)

theorem SetLabel_after_game_over_witness:
  "(state boardB_lost = MGS_Failure \<or> state boardB_lost = MGS_Success)
   \<and> 0 < length (cells boardB_lost)
   \<and> \<not> isOpened (cells boardB_lost ! 0)
   \<and> label (cells boardB_lost ! 0) \<noteq> MCL_Bomb
   \<and> SetLabel 0 MCL_Bomb boardB_lost =
        Throw 286 (boardB_lost\<lparr>cells := (cells boardB_lost)[0 := (cells boardB_lost ! 0)\<lparr>label := MCL_Bomb\<rparr>]\<rparr>)
   \<and> label (cells (game_of (SetLabel 0 MCL_Bomb boardB_lost)) ! 0) = MCL_Bomb
   \<and> modifiedCellIndices (game_of (SetLabel 0 MCL_Bomb boardB_lost)) = modifiedCellIndices boardB_lost"
proof -
  have 1: "state boardB_lost = MGS_Failure \<or> state boardB_lost = MGS_Success" by code_simp
  have 2: "0 < length (cells boardB_lost)" by code_simp
  have 3: "\<not> isOpened (cells boardB_lost ! 0)" by code_simp
  have 4: "label (cells boardB_lost ! 0) \<noteq> MCL_Bomb" by code_simp
  show ?thesis using SetLabel_after_game_over [OF 1 2 3 4] 1 2 3 4 by simp
qed

end
